theory Spec2Isabelle
  imports Main "HOL-Library.Word"
begin

section \<open>Resource fetching of mapbox-gl-js: \<open>src/util/ajax.js\<close>\<close>

text \<open>
  A shallow embedding of \<open>src/util/ajax.js\<close> and of the configuration object it
  reads. The embedding has three layers, as the source has:
  \<^item> the error class \<open>AJAXError\<close>;
  \<^item> the transports (\<open>makeXMLHttpRequest\<close>, \<open>makeFetchRequest\<close>) and the choice
    between them (\<open>makeRequest\<close>);
  \<^item> the image request queue (\<open>getImage\<close>, \<open>advanceImageRequestQueue\<close>,
    \<open>resetImageRequestQueue\<close>).
  The browser (XMLHttpRequest, fetch, the image decoder) is outside the source: the
  handlers the source registers are functions of the model, and the browser's calls of
  them are events.
\<close>

subsection \<open>Configuration\<close>

text \<open>
  The fields of \<open>config\<close> that are plain values. \<open>ajax.js\<close> reads
  \<open>MAX_PARALLEL_IMAGE_REQUESTS\<close> only.
\<close>

record Config =
  API_URL :: string
  FEEDBACK_URL :: string
  REQUIRE_ACCESS_TOKEN :: bool
  MAX_PARALLEL_IMAGE_REQUESTS :: int

definition config :: Config where
  "config = \<lparr> API_URL = ''https://api.mapbox.com'',
              FEEDBACK_URL = ''https://apps.mapbox.com/feedback'',
              REQUIRE_ACCESS_TOKEN = True,
              MAX_PARALLEL_IMAGE_REQUESTS = 16 \<rparr>"

subsection \<open>Request parameters\<close>

datatype ResponseType = TypeString | TypeJson | TypeArrayBuffer

text \<open>An optional field of the Flow type is an \<open>option\<close>: \<open>None\<close> is \<open>undefined\<close>.\<close>

record RequestParameters =
  url :: string
  headers :: "(string \<times> string) list"
  http_method :: "string option"
  body :: "string option"
  rtype :: "ResponseType option"
  credentials :: "string option"
  collectResourceTiming :: "bool option"

subsection \<open>The error class\<close>

text \<open>
  \<open>class AJAXError extends Error\<close>. The constructor appends a hint to the message
  when \<open>status === 401 && isMapboxHTTPURL(url)\<close>. \<open>isMapboxHTTPURL\<close> is imported
  from \<open>./mapbox\<close>, which is not among the sources, so it is a parameter.
\<close>

record AJAXError =
  err_name :: string
  err_message :: string
  err_status :: int
  err_url :: string

definition token_hint :: string where
  "token_hint = '': you may have provided an invalid Mapbox access token. See https://www.mapbox.com/api-documentation/#access-tokens-and-token-scopes''"

definition new_AJAXError :: "(string \<Rightarrow> bool) \<Rightarrow> string \<Rightarrow> int \<Rightarrow> string \<Rightarrow> AJAXError" where
  "new_AJAXError isMapboxHTTPURL message status u =
     (let message' = (if status = 401 \<and> isMapboxHTTPURL u then message @ token_hint else message)
      in \<lparr> err_name = ''AJAXError'', err_message = message', err_status = status, err_url = u \<rparr>)"

text \<open>What a callback can get as its \<open>error\<close> argument.\<close>

datatype js_error =
    StatusError AJAXError  \<comment> \<open>\<open>new AJAXError(statusText, status, url)\<close>\<close>
  | PlainError string      \<comment> \<open>\<open>new Error(message)\<close>\<close>
  | ParseError string      \<comment> \<open>the exception \<open>JSON.parse\<close> threw\<close>


subsection \<open>Callbacks of the transports\<close>

text \<open>
  \<open>ResponseCallback<T> = (error, data, cacheControl, expires) => void\<close>. The source
  calls it either with an error alone or with \<open>null\<close> and the data.
\<close>

datatype 'd response_call =
    CallError js_error
  | CallData 'd "string option" "string option"

subsection \<open>The buffered transport: \<open>makeXMLHttpRequest\<close>\<close>

text \<open>
  What the handlers read of the \<open>XMLHttpRequest\<close> object. \<open>xhr_response = None\<close> is
  \<open>xhr.response === null\<close>; the two header fields are what \<open>getResponseHeader\<close>
  returns for \<open>Cache-Control\<close> and \<open>Expires\<close>.
\<close>

record 'd XMLHttpRequest =
  xhr_status :: int
  xhr_statusText :: string
  xhr_response :: "'d option"
  xhr_cacheControl :: "string option"
  xhr_expires :: "string option"

definition xhr_onerror :: "'d XMLHttpRequest \<Rightarrow> 'd response_call" where
  "xhr_onerror xhr = CallError (PlainError (xhr_statusText xhr))"


subsection \<open>The streaming transport: \<open>makeFetchRequest\<close>\<close>

text \<open>
  What the handlers read of the \<open>Response\<close> object, and of a rejection reason
  (\<open>exn_code\<close> is \<open>error.code\<close>: 20 for a DOMException \<open>AbortError\<close>, undefined for
  a \<open>TypeError\<close>).
\<close>

record Response =
  resp_ok :: bool
  resp_status :: int
  resp_statusText :: string
  resp_cacheControl :: "string option"
  resp_expires :: "string option"

record js_exception =
  exn_message :: string
  exn_code :: "int option"

text \<open>
  The promise chain of \<open>makeFetchRequest\<close> as a state machine: the request waits for
  the response, then (when \<open>response.ok\<close> and the body can be read) for the body, then
  it is settled. A promise settles once, so an event that does not fit the phase does
  nothing. The callback is recorded here, not run.
\<close>

datatype fetch_phase = AwaitingResponse | ReadingBody Response | FetchSettled

record fetch_request =
  phase :: fetch_phase
  signal_aborted :: bool

datatype 'd fetch_event =
    ResponseArrives Response     \<comment> \<open>\<open>window.fetch(request)\<close> resolves\<close>
  | FetchRejects js_exception    \<comment> \<open>\<open>window.fetch(request)\<close> rejects\<close>
  | BodyArrives 'd               \<comment> \<open>\<open>response[type]()\<close> resolves\<close>
  | BodyRejects js_exception     \<comment> \<open>\<open>response[type]()\<close> rejects\<close>
  | CancelFetch                  \<comment> \<open>\<open>cancel()\<close> of the returned handle: \<open>controller.abort()\<close>\<close>

definition makeFetchRequest :: fetch_request where
  "makeFetchRequest = \<lparr> phase = AwaitingResponse, signal_aborted = False \<rparr>"

text \<open>
  \<open>response[requestParameters.type || 'text']()\<close>: the name of the property that is
  called, and the names under which a \<open>Response\<close> has a method that reads the body.
  \<open>response.string\<close> is \<open>undefined\<close>, and calling it throws a \<open>TypeError\<close> (its
  message is the engine's; it has no \<open>code\<close>).
\<close>

definition response_reader :: "ResponseType option \<Rightarrow> string" where
  "response_reader t =
     (case t of
        None \<Rightarrow> ''text''
      | Some TypeString \<Rightarrow> ''string''
      | Some TypeJson \<Rightarrow> ''json''
      | Some TypeArrayBuffer \<Rightarrow> ''arrayBuffer'')"

definition is_body_method :: "string \<Rightarrow> bool" where
  "is_body_method name \<longleftrightarrow> name \<in> set [''arrayBuffer'', ''blob'', ''formData'', ''json'', ''text'']"

definition not_a_function :: js_exception where
  "not_a_function = \<lparr> exn_message = ''response[requestParameters.type] is not a function'',
                       exn_code = None \<rparr>"

text \<open>
  The handler of \<open>.catch\<close> at the end of the chain (lines 116 to 122): it gets the
  rejection of \<open>window.fetch(request)\<close> and what the handler of \<open>.then\<close> throws.
\<close>

definition fetch_catch :: "js_exception \<Rightarrow> 'd response_call list" where
  "fetch_catch error =
     (if exn_code error = Some 20 then []
      else [CallError (PlainError (exn_message error))])"

fun fetch_step ::
  "(string \<Rightarrow> bool) \<Rightarrow> RequestParameters \<Rightarrow> 'd fetch_event \<Rightarrow> fetch_request
     \<Rightarrow> fetch_request \<times> 'd response_call list" where
  "fetch_step isMapboxHTTPURL requestParameters (ResponseArrives response) r =
     (if phase r = AwaitingResponse then
        (if resp_ok response then
           (if is_body_method (response_reader (rtype requestParameters))
            then (r\<lparr>phase := ReadingBody response\<rparr>, [])
            else (r\<lparr>phase := FetchSettled\<rparr>, fetch_catch not_a_function))
         else (r\<lparr>phase := FetchSettled\<rparr>,
               [CallError (StatusError (new_AJAXError isMapboxHTTPURL (resp_statusText response)
                  (resp_status response) (url requestParameters)))]))
      else (r, []))"
| "fetch_step isMapboxHTTPURL requestParameters (FetchRejects error) r =
     (if phase r = AwaitingResponse then (r\<lparr>phase := FetchSettled\<rparr>, fetch_catch error)
      else (r, []))"
| "fetch_step isMapboxHTTPURL requestParameters (BodyArrives result) r =
     (case phase r of
        ReadingBody response \<Rightarrow>
          (r\<lparr>phase := FetchSettled\<rparr>,
           [CallData result (resp_cacheControl response) (resp_expires response)])
      | _ \<Rightarrow> (r, []))"
| "fetch_step isMapboxHTTPURL requestParameters (BodyRejects err) r =
     (case phase r of
        ReadingBody response \<Rightarrow>
          (r\<lparr>phase := FetchSettled\<rparr>, [CallError (PlainError (exn_message err))])
      | _ \<Rightarrow> (r, []))"
| "fetch_step isMapboxHTTPURL requestParameters CancelFetch r =
     (r\<lparr>signal_aborted := True\<rparr>, [])"

fun fetch_run ::
  "(string \<Rightarrow> bool) \<Rightarrow> RequestParameters \<Rightarrow> 'd fetch_event list \<Rightarrow> fetch_request
     \<Rightarrow> fetch_request \<times> 'd response_call list" where
  "fetch_run isMapboxHTTPURL requestParameters [] r = (r, [])"
| "fetch_run isMapboxHTTPURL requestParameters (e # es) r =
     (case fetch_step isMapboxHTTPURL requestParameters e r of
        (r', calls) \<Rightarrow>
          (case fetch_run isMapboxHTTPURL requestParameters es r' of
             (r'', calls') \<Rightarrow> (r'', calls @ calls')))"

subsection \<open>Choosing the transport: \<open>makeRequest\<close>\<close>

text \<open>
  What \<open>makeRequest\<close> probes of its surroundings, each as the truth value JavaScript
  gives it in a condition.
\<close>

record Environment =
  window_fetch :: bool
  window_Request :: bool
  window_AbortController :: bool
  isWorker :: bool
  self_worker :: bool
  self_worker_actor :: bool

datatype transport =
    Fetch               \<comment> \<open>\<open>makeFetchRequest(requestParameters, callback)\<close>\<close>
  | ActorSend string    \<comment> \<open>\<open>self.worker.actor.send(name, requestParameters, callback)\<close>\<close>
  | XHR                 \<comment> \<open>\<open>makeXMLHttpRequest(requestParameters, callback)\<close>\<close>

text \<open>The regular expression \<open>/^file:/\<close>.\<close>

definition file_scheme :: "string \<Rightarrow> bool" where
  "file_scheme u = (take 5 u = ''file:'')"

text \<open>
  The two early returns inside \<open>if (!/^file:/.test(url))\<close> are \<open>Some\<close>; falling out
  of the block is \<open>None\<close>, and the last line returns the XHR transport.
\<close>

definition makeRequest :: "Environment \<Rightarrow> RequestParameters \<Rightarrow> transport" where
  "makeRequest env requestParameters =
     (case (if \<not> file_scheme (url requestParameters) then
              (if window_fetch env \<and> window_Request env \<and> window_AbortController env
               then Some Fetch
               else if isWorker env \<and> self_worker env \<and> self_worker_actor env
               then Some (ActorSend ''getResource'')
               else None)
            else None)
      of Some t \<Rightarrow> t
       | None \<Rightarrow> XHR)"

subsection \<open>The image request queue\<close>

type_synonym byte = "8 word"

text \<open>
  The \<open>src\<close> of the image element: either the object URL of a blob made of the
  received bytes, or the constant \<open>transparentPngUrl\<close> (a \<open>data:image/png;base64\<close>
  URL of about 23000 characters, a well-formed 718 by 381 PNG).
\<close>

datatype image_source = ObjectURL "byte list" | transparentPngUrl

record HTMLImageElement =
  img_src :: image_source
  img_cacheControl :: "string option"
  img_expires :: "string option"

text \<open>\<open>Callback<HTMLImageElement> = (error, result) => void\<close>.\<close>

datatype image_call = ImageError js_error | ImageResult HTMLImageElement

definition could_not_load :: string where
  "could_not_load = ''Could not load image. Please make sure to use a supported image type such as PNG or JPEG. Note that SVGs are not supported.''"

text \<open>
  A call of \<open>getImage\<close> that takes the dispatch path creates a closure: the caller's
  \<open>requestParameters\<close> and \<open>callback\<close> (a callback is a number here, and calling it
  is recorded in the state), the flag \<open>advanced\<close>, the transport operation
  \<open>request\<close> that \<open>getArrayBuffer\<close> started, and the image element once there is
  one. The transport and the image decoder are the browser's: \<open>act_transport\<close> and
  \<open>act_image\<close> hold how far the browser is with them. (\<open>getArrayBuffer\<close> adds
  \<open>type: 'arrayBuffer'\<close> to the parameters before it calls \<open>makeRequest\<close>; the
  queue does not read them.)
\<close>

datatype transport_state = InFlight | Aborted | Responded

datatype image_state = NoImage | Loading HTMLImageElement | ImageSettled

record Activation =
  act_requestParameters :: RequestParameters
  act_callback :: nat
  advanced :: bool
  act_transport :: transport_state
  act_image :: image_state

text \<open>
  The property \<open>cancel\<close> of an object \<open>queued\<close> is first the method
  \<open>cancel() { this.cancelled = true; }\<close>; \<open>advanceImageRequestQueue\<close> overwrites it
  with the \<open>cancel\<close> of the object a later \<open>getImage\<close> returned.
\<close>

datatype cancel_function =
    SetCancelled            \<comment> \<open>\<open>cancel() { this.cancelled = true; }\<close>\<close>
  | CancelActivation nat    \<comment> \<open>\<open>() => { request.cancel(); advanceImageRequestQueue(); }\<close>\<close>

record Queued =
  requestParameters :: RequestParameters
  callback :: nat
  cancelled :: bool
  cancel :: cancel_function

text \<open>
  The objects \<open>getImage\<close> returns: the object \<open>queued\<close> itself (by reference), or
  the fresh object \<open>{ cancel: () => ... }\<close> of a dispatched request (nothing ever
  assigns to its \<open>cancel\<close>, so it is identified with its closure).
\<close>

datatype handle = QueuedHandle nat | ActiveHandle nat

text \<open>
  The module's state: the variables \<open>imageQueue\<close> (references to \<open>queued\<close>
  objects) and \<open>numImageRequests\<close>, the heap of \<open>queued\<close> objects and of closures
  (a reference is an index), and what the module did to the outside: the calls of
  callbacks, in order, and the URLs it revoked.
\<close>

record State =
  imageQueue :: "nat list"
  numImageRequests :: int
  queued_objects :: "Queued list"
  activations :: "Activation list"
  invoked :: "(nat \<times> image_call) list"
  revoked :: "image_source list"

definition initial_state :: State where
  "initial_state = \<lparr> imageQueue = [], numImageRequests = 0, queued_objects = [],
                      activations = [], invoked = [], revoked = [] \<rparr>"

definition resetImageRequestQueue :: "State \<Rightarrow> State" where
  "resetImageRequestQueue s = s\<lparr>imageQueue := [], numImageRequests := 0\<rparr>"

text \<open>
  \<open>getImage\<close>, up to its \<open>return\<close>: either the request is queued, or the counter
  is incremented and the transport started.
\<close>

definition new_queued :: "RequestParameters \<Rightarrow> nat \<Rightarrow> Queued" where
  "new_queued rp cb =
     \<lparr> requestParameters = rp, callback = cb, cancelled = False, cancel = SetCancelled \<rparr>"

definition new_activation :: "RequestParameters \<Rightarrow> nat \<Rightarrow> Activation" where
  "new_activation rp cb =
     \<lparr> act_requestParameters = rp, act_callback = cb, advanced = False,
       act_transport = InFlight, act_image = NoImage \<rparr>"

definition getImage :: "Config \<Rightarrow> RequestParameters \<Rightarrow> nat \<Rightarrow> State \<Rightarrow> handle \<times> State" where
  "getImage cfg rp cb s =
     (if numImageRequests s \<ge> MAX_PARALLEL_IMAGE_REQUESTS cfg then
        (QueuedHandle (length (queued_objects s)),
         s\<lparr>queued_objects := queued_objects s @ [new_queued rp cb],
           imageQueue := imageQueue s @ [length (queued_objects s)]\<rparr>)
      else
        (ActiveHandle (length (activations s)),
         s\<lparr>numImageRequests := numImageRequests s + 1,
           activations := activations s @ [new_activation rp cb]\<rparr>))"

text \<open>Calls of \<open>getImage\<close> one after the other, with the handles they return.\<close>

fun getImages :: "Config \<Rightarrow> (RequestParameters \<times> nat) list \<Rightarrow> State \<Rightarrow> handle list \<times> State" where
  "getImages cfg [] s = ([], s)"
| "getImages cfg ((rp, cb) # rs) s =
     (case getImage cfg rp cb s of
        (h, s1) \<Rightarrow> (case getImages cfg rs s1 of (hs, s2) \<Rightarrow> (h # hs, s2)))"

text \<open>The value of \<open>h.cancel\<close> for a returned object \<open>h\<close>.\<close>

definition cancel_of :: "handle \<Rightarrow> State \<Rightarrow> cancel_function" where
  "cancel_of h s =
     (case h of
        ActiveHandle a \<Rightarrow> CancelActivation a
      | QueuedHandle q \<Rightarrow> cancel (queued_objects s ! q))"

text \<open>
  The \<open>while\<close> loop of \<open>advanceImageRequestQueue\<close>. \<open>imageQueue.shift()\<close> removes
  the head; a request that is not cancelled is given to \<open>getImage\<close>, and the \<open>cancel\<close>
  of what it returns is stored in the \<open>queued\<close> object.
\<close>

function drain :: "Config \<Rightarrow> State \<Rightarrow> State" where
  "drain cfg s =
     (if imageQueue s \<noteq> [] \<and> numImageRequests s < MAX_PARALLEL_IMAGE_REQUESTS cfg then
        (let q = hd (imageQueue s);
             s1 = s\<lparr>imageQueue := tl (imageQueue s)\<rparr>;
             request = queued_objects s1 ! q
         in if \<not> cancelled request then
              (case getImage cfg (requestParameters request) (callback request) s1 of
                 (h, s2) \<Rightarrow>
                   drain cfg (s2\<lparr>queued_objects :=
                     (queued_objects s2)[q := (queued_objects s2 ! q)\<lparr>cancel := cancel_of h s2\<rparr>]\<rparr>))
            else drain cfg s1)
      else s)"
  by pat_completeness auto
termination
  by (relation "measure (\<lambda>(cfg, s). length (imageQueue s))")
     (auto simp: getImage_def Let_def split: if_splits)

declare drain.simps [simp del]

text \<open>
  A handler of the module either returns or throws; the variables keep what was
  assigned before the \<open>throw\<close>. \<open>assert\<close> is Node's: it throws an
  \<open>AssertionError\<close> when its argument is false.
\<close>

datatype js_throw = AssertionError

datatype 'a outcome = Returns 'a | Throws js_throw 'a

fun returned :: "'a outcome \<Rightarrow> bool" where
  "returned (Returns s) = True"
| "returned (Throws e s) = False"

fun state_after :: "'a outcome \<Rightarrow> 'a" where
  "state_after (Returns s) = s"
| "state_after (Throws e s) = s"

definition advanceImageRequestQueue :: "Config \<Rightarrow> nat \<Rightarrow> State \<Rightarrow> State outcome" where
  "advanceImageRequestQueue cfg a s =
     (if advanced (activations s ! a) then Returns s
      else
        (let s1 = s\<lparr>activations := (activations s)[a := (activations s ! a)\<lparr>advanced := True\<rparr>]\<rparr>;
             s2 = s1\<lparr>numImageRequests := numImageRequests s1 - 1\<rparr>
         in if \<not> (numImageRequests s2 \<ge> 0) then Throws AssertionError s2
            else Returns (drain cfg s2)))"

text \<open>
  The callback \<open>getImage\<close> gives to \<open>getArrayBuffer\<close>. \<open>data\<close> is \<open>None\<close> when
  it is \<open>null\<close> or \<open>undefined\<close>; an \<open>ArrayBuffer\<close> is true in a condition, also
  when it is empty.
\<close>

definition arrayBufferCallback ::
  "Config \<Rightarrow> nat \<Rightarrow> (byte list option) response_call \<Rightarrow> State \<Rightarrow> State outcome" where
  "arrayBufferCallback cfg a response s =
     (case advanceImageRequestQueue cfg a s of
        Throws e s' \<Rightarrow> Throws e s'
      | Returns s' \<Rightarrow>
          (case response of
             CallError err \<Rightarrow>
               Returns (s'\<lparr>invoked := invoked s' @ [(act_callback (activations s' ! a), ImageError err)]\<rparr>)
           | CallData data cacheControl expires \<Rightarrow>
               (case data of
                  Some bytes \<Rightarrow>
                    (let img = \<lparr> img_src = (if length bytes \<noteq> 0 then ObjectURL bytes
                                               else transparentPngUrl),
                                  img_cacheControl = cacheControl, img_expires = expires \<rparr>
                     in Returns (s'\<lparr>activations :=
                          (activations s')[a := (activations s' ! a)\<lparr>act_image := Loading img\<rparr>]\<rparr>))
                | None \<Rightarrow> Returns s')))"

text \<open>\<open>img.onload\<close> and \<open>img.onerror\<close>.\<close>

definition img_onload :: "nat \<Rightarrow> HTMLImageElement \<Rightarrow> State \<Rightarrow> State" where
  "img_onload a img s =
     s\<lparr>invoked := invoked s @ [(act_callback (activations s ! a), ImageResult img)],
       revoked := revoked s @ [img_src img]\<rparr>"

definition img_onerror :: "nat \<Rightarrow> State \<Rightarrow> State" where
  "img_onerror a s =
     s\<lparr>invoked := invoked s @ [(act_callback (activations s ! a),
                                  ImageError (PlainError could_not_load))]\<rparr>"

text \<open>
  The \<open>cancel\<close> of a dispatched request: \<open>request.cancel()\<close> aborts the transport
  operation (an operation that has responded stays as it is), then
  \<open>advanceImageRequestQueue()\<close>.
\<close>

definition abort_transport :: "nat \<Rightarrow> State \<Rightarrow> State" where
  "abort_transport a s =
     s\<lparr>activations := (activations s)[a := (activations s ! a)
         \<lparr>act_transport := (if act_transport (activations s ! a) = InFlight then Aborted
                             else act_transport (activations s ! a))\<rparr>]\<rparr>"

definition cancel_activation :: "Config \<Rightarrow> nat \<Rightarrow> State \<Rightarrow> State outcome" where
  "cancel_activation cfg a s = advanceImageRequestQueue cfg a (abort_transport a s)"

text \<open>\<open>h.cancel()\<close> for a handle \<open>h\<close> that \<open>getImage\<close> returned.\<close>

definition call_cancel :: "Config \<Rightarrow> handle \<Rightarrow> State \<Rightarrow> State outcome" where
  "call_cancel cfg h s =
     (case h of
        ActiveHandle a \<Rightarrow> cancel_activation cfg a s
      | QueuedHandle q \<Rightarrow>
          (case cancel (queued_objects s ! q) of
             SetCancelled \<Rightarrow>
               Returns (s\<lparr>queued_objects :=
                  (queued_objects s)[q := (queued_objects s ! q)\<lparr>cancelled := True\<rparr>]\<rparr>)
           | CancelActivation a \<Rightarrow> cancel_activation cfg a s))"

text \<open>
  What happens to the module. A caller can cancel only a handle that \<open>getImage\<close>
  returned. \<open>TransportResponds a response\<close>: the transport of the dispatched request
  \<open>a\<close> calls the callback that \<open>getImage\<close> gave to \<open>getArrayBuffer\<close>. Which
  transport that is, \<open>makeRequest\<close> decides from the browser, and the transports
  differ in when they call: \<open>makeXMLHttpRequest\<close> calls once and not after
  \<open>abort()\<close>; \<open>makeFetchRequest\<close> also calls after \<open>abort()\<close> when the body was
  being read (line 112), and calls a second time, with an \<open>Error\<close>, when the first
  call threw (the handlers of \<open>.catch\<close>, lines 112 and 116); the actor of a worker is
  not in the sources. So the queue admits a call at any time after the dispatch, and
  \<open>act_transport\<close> only records the first response and the abort. The browser settles
  an image once, calling \<open>onload\<close> when it can decode the source (the parameter
  \<open>decodes\<close>) and \<open>onerror\<close> when it cannot. Callbacks of callers are recorded,
  not run: what a caller does in its callback is a later event.
\<close>

definition transport_responded :: "nat \<Rightarrow> State \<Rightarrow> State" where
  "transport_responded a s =
     s\<lparr>activations := (activations s)[a := (activations s ! a)
         \<lparr>act_transport := (if act_transport (activations s ! a) = InFlight then Responded
                             else act_transport (activations s ! a))\<rparr>]\<rparr>"

fun handle_exists :: "handle \<Rightarrow> State \<Rightarrow> bool" where
  "handle_exists (QueuedHandle q) s = (q < length (queued_objects s))"
| "handle_exists (ActiveHandle a) s = (a < length (activations s))"

datatype event =
    CallGetImage RequestParameters nat
  | CallCancel handle
  | TransportResponds nat "(byte list option) response_call"
  | ImageSettles nat
  | CallReset

definition step :: "Config \<Rightarrow> (image_source \<Rightarrow> bool) \<Rightarrow> event \<Rightarrow> State \<Rightarrow> State outcome" where
  "step cfg decodes ev s =
     (case ev of
        CallGetImage rp cb \<Rightarrow> Returns (snd (getImage cfg rp cb s))
      | CallCancel h \<Rightarrow> (if handle_exists h s then call_cancel cfg h s else Returns s)
      | TransportResponds a response \<Rightarrow>
          (if a < length (activations s) then
             arrayBufferCallback cfg a response (transport_responded a s)
           else Returns s)
      | ImageSettles a \<Rightarrow>
          (if a < length (activations s) then
             (case act_image (activations s ! a) of
                Loading img \<Rightarrow>
                  (let s1 = s\<lparr>activations := (activations s)[a := (activations s ! a)\<lparr>act_image := ImageSettled\<rparr>]\<rparr>
                   in Returns (if decodes (img_src img) then img_onload a img s1 else img_onerror a s1))
              | _ \<Rightarrow> Returns s)
           else Returns s)
      | CallReset \<Rightarrow> Returns (resetImageRequestQueue s))"

text \<open>
  A sequence of events. An exception that leaves a handler reaches the browser, the
  caller of \<open>cancel\<close>, or the promise chain of \<open>makeFetchRequest\<close> (whose handler
  of \<open>.catch\<close> then calls the callback again: a later event), and the module goes on
  from the state the handler left; the run keeps the first exception and the last
  state.
\<close>

fun run :: "Config \<Rightarrow> (image_source \<Rightarrow> bool) \<Rightarrow> event list \<Rightarrow> State \<Rightarrow> State outcome" where
  "run cfg decodes [] s = Returns s"
| "run cfg decodes (ev # evs) s =
     (case step cfg decodes ev s of
        Throws e s' \<Rightarrow> Throws e (state_after (run cfg decodes evs s'))
      | Returns s' \<Rightarrow> run cfg decodes evs s')"

subsection \<open>Predicates on states\<close>

text \<open>
  \<open>keeps_advanced s s'\<close>: every closure of \<open>s\<close> is still there in \<open>s'\<close>, and
  a flag \<open>advanced\<close> that was set is still set.
  \<open>counts_active s\<close>: \<open>numImageRequests\<close> is the number of closures whose
  \<open>advanced\<close> is not set, and a \<open>cancel\<close> stored in a \<open>queued\<close> object
  belongs to a closure that exists.
\<close>

definition keeps_advanced :: "State \<Rightarrow> State \<Rightarrow> bool" where
  "keeps_advanced s s' \<longleftrightarrow>
     length (activations s) \<le> length (activations s') \<and>
     (\<forall>a < length (activations s). advanced (activations s ! a) \<longrightarrow> advanced (activations s' ! a))"

definition counts_active :: "State \<Rightarrow> bool" where
  "counts_active s \<longleftrightarrow>
     numImageRequests s = int (length (filter (\<lambda>x. \<not> advanced x) (activations s))) \<and>
     (\<forall>q < length (queued_objects s). \<forall>a.
        cancel (queued_objects s ! q) = CancelActivation a \<longrightarrow> a < length (activations s))"

subsection \<open>Inputs for the examples\<close>

text \<open>
  The configuration with another ceiling, the request \<open>R\<^sub>i\<close> with callback number
  \<open>i\<close>, a successful response carrying four bytes, the \<open>AbortError\<close> a browser
  rejects an aborted fetch with, a decoder that accepts every source, and one that
  accepts every source but the object URL of empty data.
\<close>

definition ceiling_config :: "int \<Rightarrow> Config" where
  "ceiling_config n = config\<lparr>MAX_PARALLEL_IMAGE_REQUESTS := n\<rparr>"

definition image_url :: "nat \<Rightarrow> RequestParameters" where
  "image_url i =
     \<lparr> url = ''https://example.org/tile/'' @ replicate i CHR ''i'' @ ''.png'', headers = [],
       http_method = None, body = None, rtype = None, credentials = None,
       collectResourceTiming = None \<rparr>"

definition image_request :: "nat \<Rightarrow> RequestParameters \<times> nat" where
  "image_request i = (image_url i, i)"

definition four_bytes :: "(byte list option) response_call" where
  "four_bytes = CallData (Some [137, 80, 78, 71]) None None"

definition abort_error :: js_exception where
  "abort_error = \<lparr> exn_message = ''The user aborted a request.'', exn_code = Some 20 \<rparr>"

definition decodes_all :: "image_source \<Rightarrow> bool" where
  "decodes_all src = True"

definition decodes_nonempty :: "image_source \<Rightarrow> bool" where
  "decodes_nonempty src = (src \<noteq> ObjectURL [])"

section \<open>Properties\<close>

subsection \<open>Lemmas about the model\<close>

lemma token_hint_nonempty: "token_hint \<noteq> []"
  by (simp add: token_hint_def)

lemma getImages_dispatch:
  "numImageRequests s + int (length reqs) \<le> MAX_PARALLEL_IMAGE_REQUESTS cfg \<Longrightarrow>
   getImages cfg reqs s =
     (map ActiveHandle [length (activations s) ..< length (activations s) + length reqs],
      s\<lparr>numImageRequests := numImageRequests s + int (length reqs),
        activations := activations s @ map (\<lambda>(rp, cb). new_activation rp cb) reqs\<rparr>)"
proof (induction reqs arbitrary: s)
  case Nil
  then show ?case by simp
next
  case (Cons r rs)
  obtain rp cb where r: "r = (rp, cb)" by (cases r)
  have lt: "\<not> numImageRequests s \<ge> MAX_PARALLEL_IMAGE_REQUESTS cfg" using Cons.prems by simp
  let ?s1 = "s\<lparr>numImageRequests := numImageRequests s + 1,
           activations := activations s @ [new_activation rp cb]\<rparr>"
  have g: "getImage cfg rp cb s = (ActiveHandle (length (activations s)), ?s1)"
    using lt by (simp add: getImage_def)
  have "numImageRequests ?s1 + int (length rs) \<le> MAX_PARALLEL_IMAGE_REQUESTS cfg"
    using Cons.prems by simp
  from Cons.IH [OF this] show ?case
    by (simp add: r g upt_conv_Cons del: upt_Suc)
qed

lemma getImages_queue:
  "MAX_PARALLEL_IMAGE_REQUESTS cfg \<le> numImageRequests s \<Longrightarrow>
   getImages cfg reqs s =
     (map QueuedHandle [length (queued_objects s) ..< length (queued_objects s) + length reqs],
      s\<lparr>queued_objects := queued_objects s @ map (\<lambda>(rp, cb). new_queued rp cb) reqs,
        imageQueue := imageQueue s @ [length (queued_objects s) ..< length (queued_objects s) + length reqs]\<rparr>)"
proof (induction reqs arbitrary: s)
  case Nil
  then show ?case by simp
next
  case (Cons r rs)
  obtain rp cb where r: "r = (rp, cb)" by (cases r)
  let ?s1 = "s\<lparr>queued_objects := queued_objects s @ [new_queued rp cb],
           imageQueue := imageQueue s @ [length (queued_objects s)]\<rparr>"
  have g: "getImage cfg rp cb s = (QueuedHandle (length (queued_objects s)), ?s1)"
    using Cons.prems by (simp add: getImage_def)
  have "MAX_PARALLEL_IMAGE_REQUESTS cfg \<le> numImageRequests ?s1"
    using Cons.prems by simp
  from Cons.IH [OF this] show ?case
    by (simp add: r g upt_conv_Cons del: upt_Suc)
qed

lemma getImages_append:
  "getImages cfg (xs @ ys) s =
     (case getImages cfg xs s of (hs1, s1) \<Rightarrow>
        (case getImages cfg ys s1 of (hs2, s2) \<Rightarrow> (hs1 @ hs2, s2)))"
  by (induction xs arbitrary: s) (auto split: prod.splits)

lemma getImages_bounded:
  "numImageRequests s \<le> MAX_PARALLEL_IMAGE_REQUESTS cfg \<Longrightarrow>
   numImageRequests (snd (getImages cfg reqs s)) \<le> MAX_PARALLEL_IMAGE_REQUESTS cfg"
proof (induction reqs arbitrary: s)
  case Nil
  then show ?case by simp
next
  case (Cons r rs)
  obtain rp cb where r: "r = (rp, cb)" by (cases r)
  have "numImageRequests (snd (getImage cfg rp cb s)) \<le> MAX_PARALLEL_IMAGE_REQUESTS cfg"
    using Cons.prems by (simp add: getImage_def)
  from Cons.IH [OF this] show ?case
    by (cases "getImage cfg rp cb s") (auto simp: r split: prod.splits)
qed

lemma map_nth_append_upt:
  "map (\<lambda>q. f ((xs @ ys) ! q)) [length xs ..< length xs + length ys] = map f ys"
  by (rule nth_equalityI) (simp_all add: nth_append)

lemma drain_stop:
  "imageQueue s = [] \<or> MAX_PARALLEL_IMAGE_REQUESTS cfg \<le> numImageRequests s \<Longrightarrow> drain cfg s = s"
  by (subst drain.simps) auto

lemma drain_skip:
  "imageQueue s = q # qs \<Longrightarrow> numImageRequests s < MAX_PARALLEL_IMAGE_REQUESTS cfg \<Longrightarrow>
   cancelled (queued_objects s ! q) \<Longrightarrow>
   drain cfg s = drain cfg (s\<lparr>imageQueue := qs\<rparr>)"
  by (subst drain.simps) (simp add: Let_def)

lemma drain_dispatch:
  "imageQueue s = q # qs \<Longrightarrow> numImageRequests s < MAX_PARALLEL_IMAGE_REQUESTS cfg \<Longrightarrow>
   \<not> cancelled (queued_objects s ! q) \<Longrightarrow>
   drain cfg s =
     drain cfg (s\<lparr>imageQueue := qs,
                  numImageRequests := numImageRequests s + 1,
                  activations := activations s @
                    [new_activation (requestParameters (queued_objects s ! q))
                       (callback (queued_objects s ! q))],
                  queued_objects := (queued_objects s)
                    [q := (queued_objects s ! q)\<lparr>cancel := CancelActivation (length (activations s))\<rparr>]\<rparr>)"
  by (subst drain.simps) (simp add: Let_def getImage_def cancel_of_def)

text \<open>An induction rule for the loop, on the length of the queue.\<close>

lemma drain_induct [case_names stop skip dispatch]:
  assumes stop: "\<And>s. imageQueue s = [] \<or> MAX_PARALLEL_IMAGE_REQUESTS cfg \<le> numImageRequests s \<Longrightarrow> P s s"
    and skip: "\<And>s q qs r. imageQueue s = q # qs \<Longrightarrow> numImageRequests s < MAX_PARALLEL_IMAGE_REQUESTS cfg \<Longrightarrow>
        cancelled (queued_objects s ! q) \<Longrightarrow> P (s\<lparr>imageQueue := qs\<rparr>) r \<Longrightarrow> P s r"
    and dispatch: "\<And>s q qs r. imageQueue s = q # qs \<Longrightarrow> numImageRequests s < MAX_PARALLEL_IMAGE_REQUESTS cfg \<Longrightarrow>
        \<not> cancelled (queued_objects s ! q) \<Longrightarrow>
        P (s\<lparr>imageQueue := qs,
                  numImageRequests := numImageRequests s + 1,
                  activations := activations s @
                    [new_activation (requestParameters (queued_objects s ! q))
                       (callback (queued_objects s ! q))],
                  queued_objects := (queued_objects s)
                    [q := (queued_objects s ! q)\<lparr>cancel := CancelActivation (length (activations s))\<rparr>]\<rparr>) r \<Longrightarrow> P s r"
  shows "P s (drain cfg s)"
proof (induction "length (imageQueue s)" arbitrary: s rule: less_induct)
  case less
  show ?case
  proof (cases "imageQueue s")
    case Nil
    then show ?thesis using stop [of s] drain_stop [of s cfg] by simp
  next
    case (Cons q qs)
    show ?thesis
    proof (cases "numImageRequests s < MAX_PARALLEL_IMAGE_REQUESTS cfg")
      case False
      then show ?thesis using stop [of s] drain_stop [of s cfg] by simp
    next
      case True
      show ?thesis
      proof (cases "cancelled (queued_objects s ! q)")
        case c: True
        have "P (s\<lparr>imageQueue := qs\<rparr>) (drain cfg (s\<lparr>imageQueue := qs\<rparr>))"
          by (rule less) (simp add: Cons)
        then show ?thesis using skip [OF Cons True c] drain_skip [OF Cons True c] by simp
      next
        case c: False
        let ?s = "s\<lparr>imageQueue := qs,
                  numImageRequests := numImageRequests s + 1,
                  activations := activations s @
                    [new_activation (requestParameters (queued_objects s ! q))
                       (callback (queued_objects s ! q))],
                  queued_objects := (queued_objects s)
                    [q := (queued_objects s ! q)\<lparr>cancel := CancelActivation (length (activations s))\<rparr>]\<rparr>"
        have "P ?s (drain cfg ?s)"
          by (rule less) (simp add: Cons)
        then show ?thesis using dispatch [OF Cons True c] drain_dispatch [OF Cons True c] by simp
      qed
    qed
  qed
qed

lemma drain_numImageRequests_le:
  "numImageRequests s \<le> MAX_PARALLEL_IMAGE_REQUESTS cfg \<Longrightarrow>
   numImageRequests (drain cfg s) \<le> MAX_PARALLEL_IMAGE_REQUESTS cfg"
  by (induction rule: drain_induct [where cfg = cfg]) simp_all

lemma drain_invoked: "invoked (drain cfg s) = invoked s"
  by (induction rule: drain_induct [where cfg = cfg]) simp_all

lemma drain_revoked: "revoked (drain cfg s) = revoked s"
  by (induction rule: drain_induct [where cfg = cfg]) simp_all

lemma drain_activations:
  "\<exists>ext. activations (drain cfg s) = activations s @ ext \<and> (\<forall>x \<in> set ext. \<not> advanced x)"
proof (induction rule: drain_induct [where cfg = cfg])
  case (stop s)
  then show ?case by simp
next
  case (skip s q qs r)
  then show ?case by simp
next
  case (dispatch s q qs r)
  then show ?case by (auto simp: new_activation_def)
qed

lemma nth_list_update_if:
  "j < length xs \<Longrightarrow> xs[i := x] ! j = (if i = j then x else xs ! j)"
  by (cases "i = j") simp_all

lemma keeps_advanced_refl: "keeps_advanced s s"
  by (simp add: keeps_advanced_def)

lemma keeps_advanced_trans:
  "keeps_advanced s s' \<Longrightarrow> keeps_advanced s' s'' \<Longrightarrow> keeps_advanced s s''"
  by (auto simp: keeps_advanced_def)

lemma keeps_advanced_drain: "keeps_advanced s (drain cfg s)"
proof -
  obtain ext where "activations (drain cfg s) = activations s @ ext"
    using drain_activations by blast
  then show ?thesis by (simp add: keeps_advanced_def nth_append)
qed

lemma keeps_advanced_getImage: "keeps_advanced s (snd (getImage cfg rp cb s))"
  by (simp add: keeps_advanced_def getImage_def nth_append)

lemma keeps_advanced_update:
  "(advanced (activations s ! a) \<longrightarrow> advanced x) \<Longrightarrow>
   keeps_advanced s (s\<lparr>activations := (activations s)[a := x]\<rparr>)"
  by (auto simp: keeps_advanced_def nth_list_update_if)

lemma keeps_advanced_advance:
  "keeps_advanced s (state_after (advanceImageRequestQueue cfg a s))"
proof (cases "advanced (activations s ! a)")
  case True
  then show ?thesis by (simp add: advanceImageRequestQueue_def keeps_advanced_refl)
next
  case False
  let ?s2 = "s\<lparr>activations := (activations s)[a := (activations s ! a)\<lparr>advanced := True\<rparr>],
              numImageRequests := numImageRequests s - 1\<rparr>"
  have k: "keeps_advanced s ?s2"
    by (auto simp: keeps_advanced_def nth_list_update_if)
  have "state_after (advanceImageRequestQueue cfg a s) = ?s2
      \<or> state_after (advanceImageRequestQueue cfg a s) = drain cfg ?s2"
    using False by (simp add: advanceImageRequestQueue_def Let_def)
  then show ?thesis
    using k keeps_advanced_trans [OF k keeps_advanced_drain] by auto
qed

lemma keeps_advanced_abort: "keeps_advanced s (abort_transport a s)"
  unfolding abort_transport_def by (rule keeps_advanced_update) simp

lemma keeps_advanced_cancel_activation:
  "keeps_advanced s (state_after (cancel_activation cfg a s))"
  unfolding cancel_activation_def
  by (rule keeps_advanced_trans [OF keeps_advanced_abort keeps_advanced_advance])

lemma keeps_advanced_call_cancel:
  "keeps_advanced s (state_after (call_cancel cfg h s))"
proof (cases h)
  case (ActiveHandle a)
  then show ?thesis by (simp add: call_cancel_def keeps_advanced_cancel_activation)
next
  case (QueuedHandle q)
  show ?thesis
  proof (cases "cancel (queued_objects s ! q)")
    case SetCancelled
    then show ?thesis using QueuedHandle by (simp add: call_cancel_def keeps_advanced_def)
  next
    case (CancelActivation a)
    then show ?thesis using QueuedHandle
      by (simp add: call_cancel_def keeps_advanced_cancel_activation)
  qed
qed

lemma keeps_advanced_arrayBufferCallback:
  "keeps_advanced s (state_after (arrayBufferCallback cfg a response s))"
proof (cases "advanceImageRequestQueue cfg a s")
  case (Throws e s')
  then show ?thesis
    using keeps_advanced_advance [of s cfg a] by (simp add: arrayBufferCallback_def)
next
  case (Returns s')
  then have k: "keeps_advanced s s'"
    using keeps_advanced_advance [of s cfg a] by simp
  have "keeps_advanced s' (state_after (arrayBufferCallback cfg a response s))"
    using Returns
    by (auto simp: arrayBufferCallback_def keeps_advanced_def nth_list_update_if Let_def
        split: response_call.splits option.splits)
  then show ?thesis using k keeps_advanced_trans by blast
qed

lemma keeps_advanced_step: "keeps_advanced s (state_after (step cfg decodes ev s))"
proof (cases ev)
  case (CallGetImage rp cb)
  then show ?thesis by (simp add: step_def keeps_advanced_getImage)
next
  case (CallCancel h)
  then show ?thesis by (simp add: step_def keeps_advanced_call_cancel keeps_advanced_refl)
next
  case (TransportResponds a response)
  let ?s = "transport_responded a s"
  have "keeps_advanced s ?s"
    unfolding transport_responded_def by (rule keeps_advanced_update) simp
  then show ?thesis
    using TransportResponds keeps_advanced_trans [OF _ keeps_advanced_arrayBufferCallback [of ?s cfg a response]]
    by (simp add: step_def keeps_advanced_refl)
next
  case (ImageSettles a)
  then show ?thesis
    by (auto simp: step_def keeps_advanced_def nth_list_update_if img_onload_def img_onerror_def Let_def
        split: image_state.splits)
next
  case CallReset
  then show ?thesis by (simp add: step_def keeps_advanced_def resetImageRequestQueue_def)
qed

lemma keeps_advanced_run: "keeps_advanced s (state_after (run cfg decodes evs s))"
proof (induction evs arbitrary: s)
  case Nil
  then show ?case by (simp add: keeps_advanced_refl)
next
  case (Cons ev evs)
  show ?case
  proof (cases "step cfg decodes ev s")
    case (Returns s')
    then show ?thesis
      using keeps_advanced_step [of s cfg decodes ev] Cons.IH [of s'] keeps_advanced_trans by auto
  next
    case (Throws e s')
    then show ?thesis
      using keeps_advanced_step [of s cfg decodes ev] Cons.IH [of s'] keeps_advanced_trans by auto
  qed
qed

lemma advance_advanced:
  "advanced (activations s ! a) \<Longrightarrow> advanceImageRequestQueue cfg a s = Returns s"
  by (simp add: advanceImageRequestQueue_def)

lemma abort_transport_id:
  "act_transport (activations s ! a) \<noteq> InFlight \<Longrightarrow> abort_transport a s = s"
  by (simp add: abort_transport_def)

lemma drain_nth_activation:
  "a < length (activations s) \<Longrightarrow> activations (drain cfg s) ! a = activations s ! a"
proof -
  obtain ext where "activations (drain cfg s) = activations s @ ext"
    using drain_activations by blast
  then show "a < length (activations s) \<Longrightarrow> ?thesis" by (simp add: nth_append)
qed

lemma cancel_activation_advanced:
  "advanced (activations s ! a) \<Longrightarrow> cancel_activation cfg a s = Returns (abort_transport a s)"
  unfolding cancel_activation_def
  by (rule advance_advanced) (cases "a < length (activations s)"; simp add: abort_transport_def list_update_beyond)

lemma cancel_activation_first:
  assumes "a < length (activations s)" "\<not> advanced (activations s ! a)" "0 < numImageRequests s"
  shows "cancel_activation cfg a s =
     Returns (drain cfg
       ((abort_transport a s)
          \<lparr>activations := (activations (abort_transport a s))
             [a := (activations (abort_transport a s) ! a)\<lparr>advanced := True\<rparr>],
           numImageRequests := numImageRequests s - 1\<rparr>))"
  using assms
  by (simp add: cancel_activation_def advanceImageRequestQueue_def Let_def abort_transport_def)

lemma cancel_activation_settled:
  assumes "a < length (activations s)" "advanced (activations s ! a)"
    "act_transport (activations s ! a) \<noteq> InFlight"
  shows "cancel_activation cfg a s = Returns s"
  using assms by (simp add: cancel_activation_advanced abort_transport_id)

lemma run_replicate_fixed:
  "step cfg decodes ev s = Returns s \<Longrightarrow> run cfg decodes (replicate n ev) s = Returns s"
  by (induction n) simp_all

text \<open>
  Cancelling a dispatched request that is counted: the transport is aborted, the flag
  set, the counter decremented once and the loop run once; \<open>n > 0\<close> calls in a row
  are one call; after any later events a further \<open>cancel\<close> only reaches the
  transport, and a call of the transport's callback changes neither the counter nor
  the queue.
\<close>

lemma cancel_counted_request_once:
  assumes "a < length (activations s)"
    and "\<not> advanced (activations s ! a)"
    and "0 < numImageRequests s"
  shows "(let s0 = abort_transport a s;
              s1 = s0\<lparr>activations := (activations s0)[a := (activations s0 ! a)\<lparr>advanced := True\<rparr>],
                      numImageRequests := numImageRequests s - 1\<rparr>
          in call_cancel cfg (ActiveHandle a) s = Returns (drain cfg s1)
           \<and> (\<forall>n. 0 < n \<longrightarrow>
                 run cfg decodes (replicate n (CallCancel (ActiveHandle a))) s = Returns (drain cfg s1))
           \<and> (\<forall>evs. let s2 = state_after (run cfg decodes evs (drain cfg s1))
                 in call_cancel cfg (ActiveHandle a) s2 = Returns (abort_transport a s2)
                  \<and> numImageRequests (abort_transport a s2) = numImageRequests s2
                  \<and> imageQueue (abort_transport a s2) = imageQueue s2
                  \<and> (\<forall>response. let s3 = state_after (arrayBufferCallback cfg a response s2)
                        in returned (arrayBufferCallback cfg a response s2)
                         \<and> numImageRequests s3 = numImageRequests s2
                         \<and> imageQueue s3 = imageQueue s2
                         \<and> queued_objects s3 = queued_objects s2
                         \<and> length (activations s3) = length (activations s2))))"
proof -
  define s0 where "s0 = abort_transport a s"
  define s1 where "s1 = s0\<lparr>activations := (activations s0)[a := (activations s0 ! a)\<lparr>advanced := True\<rparr>],
                      numImageRequests := numImageRequests s - 1\<rparr>"
  define s' where "s' = drain cfg s1"
  have first: "call_cancel cfg (ActiveHandle a) s = Returns s'"
    using cancel_activation_first [OF assms, of cfg]
    by (simp add: call_cancel_def s'_def s1_def s0_def)
  have a1: "a < length (activations s1)" "advanced (activations s1 ! a)"
    "act_transport (activations s1 ! a) \<noteq> InFlight"
    using assms(1) by (simp_all add: s1_def s0_def abort_transport_def)
  have a': "a < length (activations s')" "advanced (activations s' ! a)"
    "act_transport (activations s' ! a) \<noteq> InFlight"
    using a1 drain_nth_activation [of a s1 cfg] keeps_advanced_drain [of s1 cfg]
    by (simp_all add: s'_def keeps_advanced_def)
  have again: "step cfg decodes (CallCancel (ActiveHandle a)) s' = Returns s'"
    using cancel_activation_settled [OF a'] a'(1) by (simp add: step_def call_cancel_def)
  have many: "run cfg decodes (replicate n (CallCancel (ActiveHandle a))) s = Returns s'" if "0 < n" for n
  proof -
    obtain m where n: "n = Suc m" using \<open>0 < n\<close> by (cases n) simp_all
    show ?thesis
      using first run_replicate_fixed [OF again, of m] assms(1) by (simp add: n step_def)
  qed
  have later: "call_cancel cfg (ActiveHandle a) s2 = Returns (abort_transport a s2)
      \<and> numImageRequests (abort_transport a s2) = numImageRequests s2
      \<and> imageQueue (abort_transport a s2) = imageQueue s2
      \<and> (\<forall>response. let s3 = state_after (arrayBufferCallback cfg a response s2)
            in returned (arrayBufferCallback cfg a response s2)
             \<and> numImageRequests s3 = numImageRequests s2
             \<and> imageQueue s3 = imageQueue s2
             \<and> queued_objects s3 = queued_objects s2
             \<and> length (activations s3) = length (activations s2))"
    if s2: "s2 = state_after (run cfg decodes evs s')" for s2 evs
  proof -
    have adv: "advanced (activations s2 ! a)"
      using keeps_advanced_run [of s' cfg decodes evs] a' by (simp add: s2 keeps_advanced_def)
    have c: "call_cancel cfg (ActiveHandle a) s2 = Returns (abort_transport a s2)"
      using cancel_activation_advanced [OF adv] by (simp add: call_cancel_def)
    have cb: "returned (arrayBufferCallback cfg a response s2)
        \<and> numImageRequests (state_after (arrayBufferCallback cfg a response s2)) = numImageRequests s2
        \<and> imageQueue (state_after (arrayBufferCallback cfg a response s2)) = imageQueue s2
        \<and> queued_objects (state_after (arrayBufferCallback cfg a response s2)) = queued_objects s2
        \<and> length (activations (state_after (arrayBufferCallback cfg a response s2))) = length (activations s2)"
      for response
      using advance_advanced [OF adv, of cfg]
      by (simp add: arrayBufferCallback_def Let_def split: response_call.splits option.splits)
    show ?thesis using c cb by (simp add: abort_transport_def Let_def)
  qed
  show ?thesis
    unfolding Let_def s0_def [symmetric] s1_def [symmetric] s'_def [symmetric]
    using first many later by (simp add: Let_def)
qed

lemma drain_queued_objects_outside:
  "q \<notin> set (imageQueue s) \<Longrightarrow> queued_objects (drain cfg s) ! q = queued_objects s ! q"
proof (induction rule: drain_induct [where cfg = cfg])
  case (stop s)
  then show ?case by simp
next
  case (skip s q' qs r)
  then show ?case by simp
next
  case (dispatch s q' qs r)
  then show ?case by simp
qed

lemma drain_length_queued_objects:
  "length (queued_objects (drain cfg s)) = length (queued_objects s)"
  by (induction rule: drain_induct [where cfg = cfg]) simp_all

lemma set_cancelled_id: "cancelled r \<Longrightarrow> r\<lparr>cancelled := True\<rparr> = r"
  by (cases r) simp

lemma advance_returns:
  assumes "a < length (activations s)" "advanced (activations s ! a) \<or> 0 < numImageRequests s"
  shows "\<exists>s'. advanceImageRequestQueue cfg a s = Returns s' \<and> invoked s' = invoked s
     \<and> revoked s' = revoked s \<and> a < length (activations s')
     \<and> act_callback (activations s' ! a) = act_callback (activations s ! a)"
proof (cases "advanced (activations s ! a)")
  case True
  then show ?thesis using assms(1) by (simp add: advanceImageRequestQueue_def)
next
  case False
  let ?s2 = "s\<lparr>activations := (activations s)[a := (activations s ! a)\<lparr>advanced := True\<rparr>],
              numImageRequests := numImageRequests s - 1\<rparr>"
  have r: "advanceImageRequestQueue cfg a s = Returns (drain cfg ?s2)"
    using False assms(2) by (simp add: advanceImageRequestQueue_def Let_def)
  have a: "a < length (activations ?s2)" using assms(1) by simp
  obtain ext where ext: "activations (drain cfg ?s2) = activations ?s2 @ ext"
    using drain_activations by blast
  show ?thesis
    using r a assms(1) drain_nth_activation [OF a, of cfg] ext
    by (simp add: drain_invoked drain_revoked)
qed

text \<open>
  An empty payload for a dispatched request that is counted, in a browser that can
  decode \<open>transparentPngUrl\<close>: the response calls no callback, the image element
  gets \<open>transparentPngUrl\<close> as its source, and when the image settles the callback
  gets that image.
\<close>

lemma empty_payload_placeholder_when_counted:
  assumes "a < length (activations s)"
    and "0 < numImageRequests s"
    and "decodes transparentPngUrl"
  shows "(let placeholder = \<lparr> img_src = transparentPngUrl, img_cacheControl = cacheControl,
                                img_expires = expires \<rparr>;
              o1 = step cfg decodes (TransportResponds a (CallData (Some []) cacheControl expires)) s;
              s1 = state_after o1;
              o2 = step cfg decodes (ImageSettles a) s1;
              s2 = state_after o2
          in returned o1 \<and> invoked s1 = invoked s
           \<and> act_image (activations s1 ! a) = Loading placeholder
           \<and> returned o2
           \<and> invoked s2 = invoked s @ [(act_callback (activations s ! a), ImageResult placeholder)])"
proof -
  let ?t = "transport_responded a s"
  let ?img = "\<lparr> img_src = transparentPngUrl, img_cacheControl = cacheControl, img_expires = expires \<rparr>"
  have "a < length (activations ?t)" "advanced (activations ?t ! a) \<or> 0 < numImageRequests ?t"
    using assms by (simp_all add: transport_responded_def)
  from advance_returns [OF this, of cfg]
  obtain s' where s': "advanceImageRequestQueue cfg a ?t = Returns s'" "invoked s' = invoked s"
    "revoked s' = revoked s" "a < length (activations s')"
    "act_callback (activations s' ! a) = act_callback (activations s ! a)"
    using assms(1) by (auto simp: transport_responded_def)
  let ?s1 = "s'\<lparr>activations := (activations s')[a := (activations s' ! a)\<lparr>act_image := Loading ?img\<rparr>]\<rparr>"
  have o1: "step cfg decodes (TransportResponds a (CallData (Some []) cacheControl expires)) s = Returns ?s1"
    using assms(1) s'(1) by (simp add: step_def arrayBufferCallback_def Let_def)
  have o2: "returned (step cfg decodes (ImageSettles a) ?s1)"
    "invoked (state_after (step cfg decodes (ImageSettles a) ?s1))
       = invoked s @ [(act_callback (activations s ! a), ImageResult ?img)]"
    using s' assms(3) by (simp_all add: step_def img_onload_def Let_def)
  show ?thesis
    unfolding Let_def o1 using o2 s' by simp
qed

lemma advance_bounded:
  "numImageRequests s \<le> MAX_PARALLEL_IMAGE_REQUESTS cfg \<Longrightarrow>
   numImageRequests (state_after (advanceImageRequestQueue cfg a s)) \<le> MAX_PARALLEL_IMAGE_REQUESTS cfg"
  by (simp add: advanceImageRequestQueue_def Let_def drain_numImageRequests_le)

lemma arrayBufferCallback_bounded:
  "numImageRequests s \<le> MAX_PARALLEL_IMAGE_REQUESTS cfg \<Longrightarrow>
   numImageRequests (state_after (arrayBufferCallback cfg a response s)) \<le> MAX_PARALLEL_IMAGE_REQUESTS cfg"
  using advance_bounded [of s cfg a]
  by (cases "advanceImageRequestQueue cfg a s")
     (simp_all add: arrayBufferCallback_def Let_def split: response_call.splits option.splits)

lemma call_cancel_bounded:
  "numImageRequests s \<le> MAX_PARALLEL_IMAGE_REQUESTS cfg \<Longrightarrow>
   numImageRequests (state_after (call_cancel cfg h s)) \<le> MAX_PARALLEL_IMAGE_REQUESTS cfg"
  using advance_bounded [of "abort_transport _ s" cfg]
  by (simp add: call_cancel_def cancel_activation_def abort_transport_def
      split: handle.splits cancel_function.splits)

lemma step_bounded:
  assumes "0 \<le> MAX_PARALLEL_IMAGE_REQUESTS cfg" "numImageRequests s \<le> MAX_PARALLEL_IMAGE_REQUESTS cfg"
  shows "numImageRequests (state_after (step cfg decodes ev s)) \<le> MAX_PARALLEL_IMAGE_REQUESTS cfg"
proof (cases ev)
  case (CallGetImage rp cb)
  then show ?thesis using assms by (simp add: step_def getImage_def)
next
  case (CallCancel h)
  then show ?thesis using assms call_cancel_bounded by (simp add: step_def)
next
  case (TransportResponds a response)
  then show ?thesis
    using assms arrayBufferCallback_bounded [of "transport_responded a s" cfg a response]
    by (simp add: step_def transport_responded_def)
next
  case (ImageSettles a)
  then show ?thesis using assms
    by (simp add: step_def img_onload_def img_onerror_def Let_def split: image_state.splits)
next
  case CallReset
  then show ?thesis using assms by (simp add: step_def resetImageRequestQueue_def)
qed

lemma run_bounded:
  assumes "0 \<le> MAX_PARALLEL_IMAGE_REQUESTS cfg"
  shows "numImageRequests s \<le> MAX_PARALLEL_IMAGE_REQUESTS cfg \<Longrightarrow>
    numImageRequests (state_after (run cfg decodes evs s)) \<le> MAX_PARALLEL_IMAGE_REQUESTS cfg"
proof (induction evs arbitrary: s)
  case Nil
  then show ?case by simp
next
  case (Cons ev evs)
  have b: "numImageRequests (state_after (step cfg decodes ev s)) \<le> MAX_PARALLEL_IMAGE_REQUESTS cfg"
    using step_bounded [OF assms Cons.prems] .
  show ?case
  proof (cases "step cfg decodes ev s")
    case (Returns s')
    then show ?thesis using b Cons.IH [of s'] by simp
  next
    case (Throws e s')
    then show ?thesis using b Cons.IH [of s'] by simp
  qed
qed

lemma length_filter_update_out:
  "a < length xs \<Longrightarrow> P (xs ! a) \<Longrightarrow> \<not> P x \<Longrightarrow>
   Suc (length (filter P (xs[a := x]))) = length (filter P xs)"
proof (induction xs arbitrary: a)
  case Nil
  then show ?case by simp
next
  case (Cons y ys)
  then show ?case by (cases a) simp_all
qed

lemma length_filter_update_same:
  "P x = P (xs ! a) \<Longrightarrow> length (filter P (xs[a := x])) = length (filter P xs)"
proof (induction xs arbitrary: a)
  case Nil
  then show ?case by simp
next
  case (Cons y ys)
  then show ?case by (cases a) simp_all
qed

lemma drain_counts_active: "counts_active s \<Longrightarrow> counts_active (drain cfg s)"
proof (induction rule: drain_induct [where cfg = cfg])
  case (stop s)
  then show ?case by simp
next
  case (skip s q qs r)
  then show ?case by (simp add: counts_active_def)
next
  case (dispatch s q qs r)
  have "counts_active (s\<lparr>imageQueue := qs,
                  numImageRequests := numImageRequests s + 1,
                  activations := activations s @
                    [new_activation (requestParameters (queued_objects s ! q))
                       (callback (queued_objects s ! q))],
                  queued_objects := (queued_objects s)
                    [q := (queued_objects s ! q)\<lparr>cancel := CancelActivation (length (activations s))\<rparr>]\<rparr>)"
    using dispatch.prems
    by (auto simp: counts_active_def new_activation_def nth_list_update_if less_Suc_eq)
  then show ?case by (rule dispatch.IH)
qed

lemma advance_counts_active:
  assumes "counts_active s" "a < length (activations s)"
  shows "returned (advanceImageRequestQueue cfg a s)
       \<and> counts_active (state_after (advanceImageRequestQueue cfg a s))"
proof (cases "advanced (activations s ! a)")
  case True
  then show ?thesis using assms by (simp add: advanceImageRequestQueue_def)
next
  case False
  let ?xs = "(activations s)[a := (activations s ! a)\<lparr>advanced := True\<rparr>]"
  let ?s2 = "s\<lparr>activations := ?xs, numImageRequests := numImageRequests s - 1\<rparr>"
  have c: "Suc (length (filter (\<lambda>x. \<not> advanced x) ?xs))
      = length (filter (\<lambda>x. \<not> advanced x) (activations s))"
    using assms(2) False by (intro length_filter_update_out) simp_all
  have n: "numImageRequests ?s2 = int (length (filter (\<lambda>x. \<not> advanced x) ?xs))"
    using assms(1) c by (simp add: counts_active_def)
  then have nonneg: "0 \<le> numImageRequests ?s2" by simp
  have "counts_active ?s2"
    using n assms(1) by (simp add: counts_active_def)
  then have "counts_active (drain cfg ?s2)" by (rule drain_counts_active)
  then show ?thesis
    using False nonneg by (simp add: advanceImageRequestQueue_def Let_def)
qed

lemma abort_counts_active: "counts_active s \<Longrightarrow> counts_active (abort_transport a s)"
  by (simp add: counts_active_def abort_transport_def length_filter_update_same)

lemma cancel_activation_counts_active:
  assumes "counts_active s" "a < length (activations s)"
  shows "returned (cancel_activation cfg a s) \<and> counts_active (state_after (cancel_activation cfg a s))"
  unfolding cancel_activation_def
  using advance_counts_active [OF abort_counts_active [OF assms(1)], of a a cfg] assms(2)
  by (simp add: abort_transport_def)

lemma call_cancel_counts_active:
  assumes "counts_active s" "handle_exists h s"
  shows "returned (call_cancel cfg h s) \<and> counts_active (state_after (call_cancel cfg h s))"
proof (cases h)
  case (ActiveHandle a)
  then show ?thesis
    using assms cancel_activation_counts_active [of s a cfg] by (simp add: call_cancel_def)
next
  case (QueuedHandle q)
  show ?thesis
  proof (cases "cancel (queued_objects s ! q)")
    case SetCancelled
    then show ?thesis using QueuedHandle assms
      by (auto simp: call_cancel_def counts_active_def nth_list_update_if)
  next
    case (CancelActivation a)
    then have "a < length (activations s)"
      using QueuedHandle assms by (simp add: counts_active_def)
    then show ?thesis
      using QueuedHandle CancelActivation assms(1) cancel_activation_counts_active [of s a cfg]
      by (simp add: call_cancel_def)
  qed
qed

lemma arrayBufferCallback_counts_active:
  assumes "counts_active s" "a < length (activations s)"
  shows "returned (arrayBufferCallback cfg a response s)
       \<and> counts_active (state_after (arrayBufferCallback cfg a response s))"
proof -
  obtain s' where s': "advanceImageRequestQueue cfg a s = Returns s'" "counts_active s'"
    using advance_counts_active [OF assms, of cfg]
    by (cases "advanceImageRequestQueue cfg a s") simp_all
  show ?thesis
    using s'
    by (simp add: arrayBufferCallback_def Let_def counts_active_def length_filter_update_same
        split: response_call.splits option.splits)
qed

lemma step_counts_active:
  assumes "counts_active s" "ev \<noteq> CallReset"
  shows "returned (step cfg decodes ev s) \<and> counts_active (state_after (step cfg decodes ev s))"
proof (cases ev)
  case (CallGetImage rp cb)
  then show ?thesis using assms(1)
    by (auto simp: step_def getImage_def counts_active_def new_activation_def new_queued_def
        nth_append less_Suc_eq)
next
  case (CallCancel h)
  then show ?thesis using assms(1) call_cancel_counts_active [of s h cfg] by (simp add: step_def)
next
  case (TransportResponds a response)
  let ?t = "transport_responded a s"
  have "counts_active ?t"
    using assms(1) by (simp add: counts_active_def transport_responded_def length_filter_update_same)
  then show ?thesis
    using TransportResponds assms(1) arrayBufferCallback_counts_active [of ?t a cfg response]
    by (simp add: step_def transport_responded_def)
next
  case (ImageSettles a)
  then show ?thesis using assms(1)
    by (simp add: step_def counts_active_def img_onload_def img_onerror_def Let_def
        length_filter_update_same split: image_state.splits)
next
  case CallReset
  then show ?thesis using assms(2) by simp
qed

lemma run_counts_active:
  "counts_active s \<Longrightarrow> CallReset \<notin> set evs \<Longrightarrow>
   returned (run cfg decodes evs s) \<and> counts_active (state_after (run cfg decodes evs s))"
proof (induction evs arbitrary: s)
  case Nil
  then show ?case by simp
next
  case (Cons ev evs)
  have "ev \<noteq> CallReset" using Cons.prems(2) by auto
  from step_counts_active [OF Cons.prems(1) this, of cfg decodes]
  obtain s' where s': "step cfg decodes ev s = Returns s'" "counts_active s'"
    by (cases "step cfg decodes ev s") simp_all
  show ?case using Cons.IH [OF s'(2)] Cons.prems(2) s'(1) by simp
qed

lemma counts_active_initial: "counts_active initial_state"
  by (simp add: counts_active_def initial_state_def)

lemma assertion_holds_without_reset:
  "CallReset \<notin> set evs \<Longrightarrow>
   returned (run cfg decodes evs initial_state)
   \<and> 0 \<le> numImageRequests (state_after (run cfg decodes evs initial_state))"
  using run_counts_active [OF counts_active_initial, of evs cfg decodes]
  by (simp add: counts_active_def)

subsection \<open>C1: the ceiling on dispatched image requests\<close>

text \<open>
  C1. The default ceiling is 16. For a ceiling that is not negative, \<open>numImageRequests\<close>
  never exceeds it: not after any sequence of calls of \<open>getImage\<close>, and not after any
  sequence of events, from a state where it holds. When \<open>N\<close> requests are submitted to
  a reset queue, \<open>N\<close> greater than the ceiling, and none completes, the first
  \<open>ceiling\<close> of them are dispatched (each gets a closure, in order, and the handle of
  a dispatched request), \<open>numImageRequests\<close> is the ceiling, and the other
  \<open>N - ceiling\<close> are appended to \<open>imageQueue\<close> in the order of submission; no
  callback is called.
\<close>

theorem getImage_ceiling:
  assumes "0 \<le> MAX_PARALLEL_IMAGE_REQUESTS cfg"
  shows "MAX_PARALLEL_IMAGE_REQUESTS config = 16
       \<and> (numImageRequests s \<le> MAX_PARALLEL_IMAGE_REQUESTS cfg \<longrightarrow>
            numImageRequests (snd (getImages cfg reqs s)) \<le> MAX_PARALLEL_IMAGE_REQUESTS cfg
          \<and> numImageRequests (state_after (run cfg decodes evs s)) \<le> MAX_PARALLEL_IMAGE_REQUESTS cfg)
       \<and> numImageRequests (snd (getImages cfg reqs (resetImageRequestQueue s0)))
            \<le> MAX_PARALLEL_IMAGE_REQUESTS cfg
       \<and> (MAX_PARALLEL_IMAGE_REQUESTS cfg < int (length reqs) \<longrightarrow>
            (let n = nat (MAX_PARALLEL_IMAGE_REQUESTS cfg);
                 la = length (activations s0);
                 lq = length (queued_objects s0);
                 s' = snd (getImages cfg reqs (resetImageRequestQueue s0))
             in fst (getImages cfg reqs (resetImageRequestQueue s0)) =
                  map ActiveHandle [la ..< la + n] @ map QueuedHandle [lq ..< lq + (length reqs - n)]
              \<and> numImageRequests s' = MAX_PARALLEL_IMAGE_REQUESTS cfg
              \<and> activations s' = activations s0 @ map (\<lambda>(rp, cb). new_activation rp cb) (take n reqs)
              \<and> queued_objects s' = queued_objects s0 @ map (\<lambda>(rp, cb). new_queued rp cb) (drop n reqs)
              \<and> imageQueue s' = [lq ..< lq + (length reqs - n)]
              \<and> map (\<lambda>q. (requestParameters (queued_objects s' ! q), callback (queued_objects s' ! q)))
                    (imageQueue s') = drop n reqs
              \<and> invoked s' = invoked s0))"
proof (intro conjI impI)
  show "MAX_PARALLEL_IMAGE_REQUESTS config = 16" by (simp add: config_def)
next
  assume "numImageRequests s \<le> MAX_PARALLEL_IMAGE_REQUESTS cfg"
  then show "numImageRequests (snd (getImages cfg reqs s)) \<le> MAX_PARALLEL_IMAGE_REQUESTS cfg"
    by (rule getImages_bounded)
next
  assume "numImageRequests s \<le> MAX_PARALLEL_IMAGE_REQUESTS cfg"
  then show "numImageRequests (state_after (run cfg decodes evs s)) \<le> MAX_PARALLEL_IMAGE_REQUESTS cfg"
    by (rule run_bounded [OF assms])
next
  have "numImageRequests (resetImageRequestQueue s0) \<le> MAX_PARALLEL_IMAGE_REQUESTS cfg"
    using assms by (simp add: resetImageRequestQueue_def)
  then show "numImageRequests (snd (getImages cfg reqs (resetImageRequestQueue s0)))
      \<le> MAX_PARALLEL_IMAGE_REQUESTS cfg"
    by (rule getImages_bounded)
next
  assume more: "MAX_PARALLEL_IMAGE_REQUESTS cfg < int (length reqs)"
  define n where "n = nat (MAX_PARALLEL_IMAGE_REQUESTS cfg)"
  define r where "r = resetImageRequestQueue s0"
  have n: "int n = MAX_PARALLEL_IMAGE_REQUESTS cfg" "n < length reqs"
    using assms more by (simp_all add: n_def)
  have len: "length (take n reqs) = n" "length (drop n reqs) = length reqs - n"
    using n by simp_all
  have r: "numImageRequests r = 0" "imageQueue r = []" "activations r = activations s0"
    "queued_objects r = queued_objects s0" "invoked r = invoked s0"
    by (simp_all add: r_def resetImageRequestQueue_def)
  have "numImageRequests r + int (length (take n reqs)) \<le> MAX_PARALLEL_IMAGE_REQUESTS cfg"
    using n len r by simp
  from getImages_dispatch [OF this]
  have first: "getImages cfg (take n reqs) r =
      (map ActiveHandle [length (activations s0) ..< length (activations s0) + n],
       r\<lparr>numImageRequests := MAX_PARALLEL_IMAGE_REQUESTS cfg,
         activations := activations s0 @ map (\<lambda>(rp, cb). new_activation rp cb) (take n reqs)\<rparr>)"
    using n len r by simp
  let ?m = "r\<lparr>numImageRequests := MAX_PARALLEL_IMAGE_REQUESTS cfg,
         activations := activations s0 @ map (\<lambda>(rp, cb). new_activation rp cb) (take n reqs)\<rparr>"
  have "MAX_PARALLEL_IMAGE_REQUESTS cfg \<le> numImageRequests ?m" by simp
  from getImages_queue [OF this, of "drop n reqs"]
  have second: "getImages cfg (drop n reqs) ?m =
      (map QueuedHandle [length (queued_objects s0) ..< length (queued_objects s0) + (length reqs - n)],
       ?m\<lparr>queued_objects := queued_objects s0 @ map (\<lambda>(rp, cb). new_queued rp cb) (drop n reqs),
          imageQueue := [length (queued_objects s0) ..< length (queued_objects s0) + (length reqs - n)]\<rparr>)"
    using len r by simp
  have "getImages cfg reqs r = getImages cfg (take n reqs @ drop n reqs) r" by simp
  also have "\<dots> =
      (map ActiveHandle [length (activations s0) ..< length (activations s0) + n]
         @ map QueuedHandle [length (queued_objects s0) ..< length (queued_objects s0) + (length reqs - n)],
       ?m\<lparr>queued_objects := queued_objects s0 @ map (\<lambda>(rp, cb). new_queued rp cb) (drop n reqs),
          imageQueue := [length (queued_objects s0) ..< length (queued_objects s0) + (length reqs - n)]\<rparr>)"
    unfolding getImages_append first using second by simp
  finally have all: "getImages cfg reqs r =
      (map ActiveHandle [length (activations s0) ..< length (activations s0) + n]
         @ map QueuedHandle [length (queued_objects s0) ..< length (queued_objects s0) + (length reqs - n)],
       ?m\<lparr>queued_objects := queued_objects s0 @ map (\<lambda>(rp, cb). new_queued rp cb) (drop n reqs),
          imageQueue := [length (queued_objects s0) ..< length (queued_objects s0) + (length reqs - n)]\<rparr>)" .
  have order: "map (\<lambda>q. (requestParameters ((queued_objects s0 @ map (\<lambda>(rp, cb). new_queued rp cb) (drop n reqs)) ! q),
                        callback ((queued_objects s0 @ map (\<lambda>(rp, cb). new_queued rp cb) (drop n reqs)) ! q)))
        [length (queued_objects s0) ..< length (queued_objects s0) + (length reqs - n)] = drop n reqs"
    using map_nth_append_upt [of "\<lambda>x. (requestParameters x, callback x)" "queued_objects s0"
        "map (\<lambda>(rp, cb). new_queued rp cb) (drop n reqs)"]
    by (simp add: len new_queued_def case_prod_beta comp_def)
  show "let n = nat (MAX_PARALLEL_IMAGE_REQUESTS cfg);
                 la = length (activations s0);
                 lq = length (queued_objects s0);
                 s' = snd (getImages cfg reqs (resetImageRequestQueue s0))
             in fst (getImages cfg reqs (resetImageRequestQueue s0)) =
                  map ActiveHandle [la ..< la + n] @ map QueuedHandle [lq ..< lq + (length reqs - n)]
              \<and> numImageRequests s' = MAX_PARALLEL_IMAGE_REQUESTS cfg
              \<and> activations s' = activations s0 @ map (\<lambda>(rp, cb). new_activation rp cb) (take n reqs)
              \<and> queued_objects s' = queued_objects s0 @ map (\<lambda>(rp, cb). new_queued rp cb) (drop n reqs)
              \<and> imageQueue s' = [lq ..< lq + (length reqs - n)]
              \<and> map (\<lambda>q. (requestParameters (queued_objects s' ! q), callback (queued_objects s' ! q)))
                    (imageQueue s') = drop n reqs
              \<and> invoked s' = invoked s0"
    unfolding Let_def n_def [symmetric] r_def [symmetric] all
    using order r by simp
qed

theorem getImage_ceiling_witness:
  "0 \<le> MAX_PARALLEL_IMAGE_REQUESTS config
   \<and> MAX_PARALLEL_IMAGE_REQUESTS config < int (length (map image_request [1..<18]))
   \<and> numImageRequests (snd (getImages config (map image_request [1..<18])
        (resetImageRequestQueue initial_state))) = 16
   \<and> fst (getImages config (map image_request [1..<18]) (resetImageRequestQueue initial_state))
        = map ActiveHandle [0..<16] @ [QueuedHandle 0]
   \<and> map (\<lambda>q. callback (queued_objects (snd (getImages config (map image_request [1..<18])
        (resetImageRequestQueue initial_state))) ! q))
        (imageQueue (snd (getImages config (map image_request [1..<18])
           (resetImageRequestQueue initial_state)))) = [17]"
proof -
  have h: "0 \<le> MAX_PARALLEL_IMAGE_REQUESTS config" by (simp add: config_def)
  have d: "drop 16 (map image_request [1..<18]) = [image_request 17]"
    by (simp add: drop_map)
  show ?thesis
    using getImage_ceiling [OF h, where reqs = "map image_request [1..<18]" and s0 = initial_state
        and s = initial_state and evs = "[]" and decodes = decodes_all]
    by (simp add: config_def initial_state_def Let_def d new_queued_def image_request_def)
qed

subsection \<open>C2: the scenario with ceiling 2\<close>

text \<open>
  C2. With ceiling 2, the requests \<open>R\<^sub>1 \<dots> R\<^sub>5\<close> are submitted in order: \<open>R\<^sub>1\<close> and
  \<open>R\<^sub>2\<close> are dispatched, \<open>R\<^sub>3\<close>, \<open>R\<^sub>4\<close>, \<open>R\<^sub>5\<close> are queued. When \<open>R\<^sub>1\<close>
  completes, \<open>R\<^sub>3\<close> is dispatched. \<open>R\<^sub>4\<close> is cancelled while it is queued. When
  \<open>R\<^sub>2\<close> completes, \<open>R\<^sub>4\<close> is skipped and \<open>R\<^sub>5\<close> is dispatched. After \<open>R\<^sub>3\<close>
  and \<open>R\<^sub>5\<close> complete, the callbacks of \<open>R\<^sub>1\<close>, \<open>R\<^sub>2\<close>, \<open>R\<^sub>3\<close>, \<open>R\<^sub>5\<close> have been
  called once each, with the image, and the callback of \<open>R\<^sub>4\<close> has not been called.
  (A request completes when its transport responds and its image has loaded.)
\<close>

theorem ceiling_two_scenario:
  "(let cfg = ceiling_config 2;
        img = \<lparr> img_src = ObjectURL [137, 80, 78, 71], img_cacheControl = None, img_expires = None \<rparr>;
        s5 = snd (getImages cfg (map image_request [1, 2, 3, 4, 5]) initial_state);
        o6 = run cfg decodes_all [TransportResponds 0 four_bytes, ImageSettles 0] s5;
        s6 = state_after o6;
        o7 = run cfg decodes_all [CallCancel (QueuedHandle 1)] s6;
        s7 = state_after o7;
        o8 = run cfg decodes_all [TransportResponds 1 four_bytes, ImageSettles 1] s7;
        s8 = state_after o8;
        o9 = run cfg decodes_all [TransportResponds 2 four_bytes, ImageSettles 2,
                                  TransportResponds 3 four_bytes, ImageSettles 3] s8;
        s9 = state_after o9
    in fst (getImages cfg (map image_request [1, 2, 3, 4, 5]) initial_state)
         = [ActiveHandle 0, ActiveHandle 1, QueuedHandle 0, QueuedHandle 1, QueuedHandle 2]
     \<and> map act_callback (activations s5) = [1, 2]
     \<and> map (\<lambda>q. callback (queued_objects s5 ! q)) (imageQueue s5) = [3, 4, 5]
     \<and> numImageRequests s5 = 2
     \<and> returned o6
     \<and> map act_callback (activations s6) = [1, 2, 3]
     \<and> map (\<lambda>q. callback (queued_objects s6 ! q)) (imageQueue s6) = [4, 5]
     \<and> numImageRequests s6 = 2
     \<and> invoked s6 = [(1, ImageResult img)]
     \<and> returned o7
     \<and> cancelled (queued_objects s7 ! 1)
     \<and> activations s7 = activations s6 \<and> imageQueue s7 = imageQueue s6
     \<and> numImageRequests s7 = 2 \<and> invoked s7 = invoked s6
     \<and> returned o8
     \<and> map act_callback (activations s8) = [1, 2, 3, 5]
     \<and> imageQueue s8 = []
     \<and> numImageRequests s8 = 2
     \<and> invoked s8 = [(1, ImageResult img), (2, ImageResult img)]
     \<and> returned o9
     \<and> invoked s9 = [(1, ImageResult img), (2, ImageResult img), (3, ImageResult img), (5, ImageResult img)]
     \<and> map act_callback (activations s9) = [1, 2, 3, 5]
     \<and> numImageRequests s9 = 0 \<and> imageQueue s9 = [])"
  by code_simp

subsection \<open>C3: cancelling a dispatched request\<close>

text \<open>
  C3 says that \<open>cancel\<close> on the handle of every dispatched request decrements
  \<open>numImageRequests\<close> once and runs the loop once. For a request that is counted in
  \<open>numImageRequests\<close> it does, and further calls change nothing (lemma
  \<open>cancel_counted_request_once\<close>; without a reset every dispatched request is
  counted, lemma \<open>run_counts_active\<close>). After \<open>resetImageRequestQueue\<close> with a
  request in flight it does not: \<open>R\<^sub>1\<close> is dispatched, the queue is reset, \<open>R\<^sub>2\<close> is
  dispatched, \<open>R\<^sub>1\<close> is cancelled. Now the counter is 0 and \<open>R\<^sub>2\<close> is dispatched and
  not advanced. \<open>cancel\<close> on the handle of \<open>R\<^sub>2\<close> aborts its transport, sets the
  counter to \<open>-1\<close>, and the assertion throws before the loop.
\<close>

theorem cancel_after_reset_fails_assertion:
  "(let o4 = run config decodes_all
               [CallGetImage (image_url 1) 1, CallReset, CallGetImage (image_url 2) 2,
                CallCancel (ActiveHandle 0)] initial_state;
        s4 = state_after o4;
        o5 = call_cancel config (ActiveHandle 1) s4
    in returned o4
     \<and> numImageRequests s4 = 0 \<and> imageQueue s4 = []
     \<and> handle_exists (ActiveHandle 1) s4
     \<and> act_requestParameters (activations s4 ! 1) = image_url 2
     \<and> \<not> advanced (activations s4 ! 1)
     \<and> act_transport (activations s4 ! 1) = InFlight
     \<and> \<not> returned o5
     \<and> o5 = Throws AssertionError
            (s4\<lparr>activations := (activations s4)
                  [1 := (activations s4 ! 1)\<lparr>advanced := True, act_transport := Aborted\<rparr>],
                numImageRequests := - 1\<rparr>))"
  by (simp add: config_def initial_state_def step_def getImage_def resetImageRequestQueue_def
      advanceImageRequestQueue_def call_cancel_def cancel_activation_def abort_transport_def
      new_activation_def drain_stop Let_def)

subsection \<open>C4: the handle of a queued request\<close>

text \<open>
  C4, as the code has it. A request submitted while \<open>numImageRequests\<close> is at the
  ceiling is appended to the queue, not cancelled, and its handle is the queued object.
  As long as the object's \<open>cancel\<close> is the method it was created with, calling it
  sets the flag \<open>cancelled\<close> and nothing else, calling it again changes nothing, and
  on an object that is cancelled already it changes nothing. When the loop dispatches
  the object (it is at the head of the queue, not cancelled, and there is room), it
  stores in it the \<open>cancel\<close> of the new dispatched request; from then on calling
  \<open>cancel\<close> on the handle is cancelling that dispatched request.
  The claim as stated, no effect once the request has been dispatched from the queue,
  fails: after \<open>R\<^sub>2\<close> has been dispatched from the queue, \<open>cancel\<close> on its handle
  aborts its transport and decrements \<open>numImageRequests\<close>.
\<close>

theorem queued_handle_cancel:
  "(MAX_PARALLEL_IMAGE_REQUESTS cfg \<le> numImageRequests s \<longrightarrow>
      getImage cfg rp cb s =
        (QueuedHandle (length (queued_objects s)),
         s\<lparr>queued_objects := queued_objects s @ [new_queued rp cb],
           imageQueue := imageQueue s @ [length (queued_objects s)]\<rparr>)
      \<and> cancel (new_queued rp cb) = SetCancelled \<and> \<not> cancelled (new_queued rp cb))
   \<and> (q < length (queued_objects s) \<and> cancel (queued_objects s ! q) = SetCancelled \<longrightarrow>
        (let s' = s\<lparr>queued_objects := (queued_objects s)[q := (queued_objects s ! q)\<lparr>cancelled := True\<rparr>]\<rparr>
         in call_cancel cfg (QueuedHandle q) s = Returns s'
          \<and> cancelled (queued_objects s' ! q)
          \<and> call_cancel cfg (QueuedHandle q) s' = Returns s'
          \<and> (cancelled (queued_objects s ! q) \<longrightarrow> s' = s)))
   \<and> (imageQueue s = q # qs \<and> q \<notin> set qs \<and> q < length (queued_objects s)
        \<and> numImageRequests s < MAX_PARALLEL_IMAGE_REQUESTS cfg \<and> \<not> cancelled (queued_objects s ! q) \<longrightarrow>
        cancel (queued_objects (drain cfg s) ! q) = CancelActivation (length (activations s))
        \<and> activations (drain cfg s) ! length (activations s) =
            new_activation (requestParameters (queued_objects s ! q)) (callback (queued_objects s ! q)))
   \<and> (cancel (queued_objects s ! q) = CancelActivation a \<longrightarrow>
        call_cancel cfg (QueuedHandle q) s = call_cancel cfg (ActiveHandle a) s
        \<and> call_cancel cfg (QueuedHandle q) s = cancel_activation cfg a s)"
proof (intro conjI impI)
  assume "MAX_PARALLEL_IMAGE_REQUESTS cfg \<le> numImageRequests s"
  then show "getImage cfg rp cb s =
        (QueuedHandle (length (queued_objects s)),
         s\<lparr>queued_objects := queued_objects s @ [new_queued rp cb],
           imageQueue := imageQueue s @ [length (queued_objects s)]\<rparr>)"
    by (simp add: getImage_def)
next
  show "cancel (new_queued rp cb) = SetCancelled" by (simp add: new_queued_def)
next
  show "\<not> cancelled (new_queued rp cb)" by (simp add: new_queued_def)
next
  assume "q < length (queued_objects s) \<and> cancel (queued_objects s ! q) = SetCancelled"
  then show "let s' = s\<lparr>queued_objects := (queued_objects s)[q := (queued_objects s ! q)\<lparr>cancelled := True\<rparr>]\<rparr>
         in call_cancel cfg (QueuedHandle q) s = Returns s'
          \<and> cancelled (queued_objects s' ! q)
          \<and> call_cancel cfg (QueuedHandle q) s' = Returns s'
          \<and> (cancelled (queued_objects s ! q) \<longrightarrow> s' = s)"
    by (simp add: call_cancel_def Let_def set_cancelled_id)
next
  assume h: "imageQueue s = q # qs \<and> q \<notin> set qs \<and> q < length (queued_objects s)
        \<and> numImageRequests s < MAX_PARALLEL_IMAGE_REQUESTS cfg \<and> \<not> cancelled (queued_objects s ! q)"
  let ?s = "s\<lparr>imageQueue := qs,
                  numImageRequests := numImageRequests s + 1,
                  activations := activations s @
                    [new_activation (requestParameters (queued_objects s ! q))
                       (callback (queued_objects s ! q))],
                  queued_objects := (queued_objects s)
                    [q := (queued_objects s ! q)\<lparr>cancel := CancelActivation (length (activations s))\<rparr>]\<rparr>"
  have d: "drain cfg s = drain cfg ?s"
    using h drain_dispatch [of s q qs cfg] by simp
  have "q \<notin> set (imageQueue ?s)" using h by simp
  from drain_queued_objects_outside [OF this, of cfg]
  show "cancel (queued_objects (drain cfg s) ! q) = CancelActivation (length (activations s))"
    using h by (simp add: d)
  have "length (activations s) < length (activations ?s)" by simp
  from drain_nth_activation [OF this, of cfg]
  show "activations (drain cfg s) ! length (activations s) =
      new_activation (requestParameters (queued_objects s ! q)) (callback (queued_objects s ! q))"
    by (simp add: d)
next
  assume "cancel (queued_objects s ! q) = CancelActivation a"
  then show "call_cancel cfg (QueuedHandle q) s = call_cancel cfg (ActiveHandle a) s"
    and "call_cancel cfg (QueuedHandle q) s = cancel_activation cfg a s"
    by (simp_all add: call_cancel_def)
qed

theorem queued_handle_cancel_counterexample:
  "(let cfg = ceiling_config 1;
        s2 = snd (getImages cfg (map image_request [1, 2]) initial_state);
        s3 = state_after (run cfg decodes_all [TransportResponds 0 four_bytes] s2)
    in fst (getImages cfg (map image_request [1, 2]) initial_state) = [ActiveHandle 0, QueuedHandle 0]
     \<and> imageQueue s2 = [0]
     \<and> imageQueue s3 = [] \<and> numImageRequests s3 = 1
     \<and> map act_callback (activations s3) = [1, 2]
     \<and> act_transport (activations s3 ! 1) = InFlight
     \<and> call_cancel cfg (QueuedHandle 0) s3 \<noteq> Returns s3
     \<and> numImageRequests (state_after (call_cancel cfg (QueuedHandle 0) s3)) = 0
     \<and> act_transport (activations (state_after (call_cancel cfg (QueuedHandle 0) s3)) ! 1) = Aborted)"
  by (simp add: ceiling_config_def config_def image_request_def four_bytes_def decodes_all_def
      initial_state_def getImage_def new_queued_def new_activation_def step_def transport_responded_def
      arrayBufferCallback_def advanceImageRequestQueue_def drain.simps cancel_of_def call_cancel_def
      cancel_activation_def abort_transport_def Let_def)

theorem queued_handle_cancel_witness:
  "(let cfg = ceiling_config 1;
        s2 = snd (getImages cfg (map image_request [1, 2]) initial_state);
        s2' = s2\<lparr>numImageRequests := 0\<rparr>;
        s3 = state_after (run cfg decodes_all [TransportResponds 0 four_bytes] s2)
    in MAX_PARALLEL_IMAGE_REQUESTS cfg \<le> numImageRequests s2
     \<and> fst (getImage cfg (image_url 3) 3 s2) = QueuedHandle 1
     \<and> 0 < length (queued_objects s2) \<and> cancel (queued_objects s2 ! 0) = SetCancelled
     \<and> returned (call_cancel cfg (QueuedHandle 0) s2)
     \<and> cancelled (queued_objects (state_after (call_cancel cfg (QueuedHandle 0) s2)) ! 0)
     \<and> imageQueue s2' = [0] \<and> numImageRequests s2' < MAX_PARALLEL_IMAGE_REQUESTS cfg
     \<and> \<not> cancelled (queued_objects s2' ! 0)
     \<and> cancel (queued_objects (drain cfg s2') ! 0) = CancelActivation 1
     \<and> cancel (queued_objects s3 ! 0) = CancelActivation 1
     \<and> call_cancel cfg (QueuedHandle 0) s3 = call_cancel cfg (ActiveHandle 1) s3)"
proof -
  define cfg where "cfg = ceiling_config 1"
  define s2 where "s2 = snd (getImages cfg (map image_request [1, 2]) initial_state)"
  define s3 where "s3 = state_after (run cfg decodes_all [TransportResponds 0 four_bytes] s2)"
  have s2: "s2 = \<lparr> imageQueue = [0], numImageRequests = 1,
                   queued_objects = [new_queued (image_url 2) 2],
                   activations = [new_activation (image_url 1) 1],
                   invoked = [], revoked = [] \<rparr>"
    by (simp add: s2_def cfg_def ceiling_config_def config_def image_request_def initial_state_def
        getImage_def)
  have s3: "cancel (queued_objects s3 ! 0) = CancelActivation 1"
    by (simp add: s3_def s2 cfg_def ceiling_config_def config_def four_bytes_def step_def transport_responded_def
        arrayBufferCallback_def advanceImageRequestQueue_def drain.simps getImage_def cancel_of_def
        new_queued_def new_activation_def Let_def)
  have m: "MAX_PARALLEL_IMAGE_REQUESTS cfg = 1"
    by (simp add: cfg_def ceiling_config_def)
  have a: "MAX_PARALLEL_IMAGE_REQUESTS cfg \<le> numImageRequests s2"
    "0 < length (queued_objects s2) \<and> cancel (queued_objects s2 ! 0) = SetCancelled"
    by (simp_all add: s2 m new_queued_def)
  have b: "imageQueue (s2\<lparr>numImageRequests := 0\<rparr>) = 0 # [] \<and> 0 \<notin> set ([] :: nat list)
      \<and> 0 < length (queued_objects (s2\<lparr>numImageRequests := 0\<rparr>))
      \<and> numImageRequests (s2\<lparr>numImageRequests := 0\<rparr>) < MAX_PARALLEL_IMAGE_REQUESTS cfg
      \<and> \<not> cancelled (queued_objects (s2\<lparr>numImageRequests := 0\<rparr>) ! 0)"
    by (simp add: s2 m new_queued_def)
  note A = queued_handle_cancel [where cfg = cfg and s = s2 and q = 0 and rp = "image_url 3" and cb = 3]
  note B = queued_handle_cancel [where cfg = cfg and s = "s2\<lparr>numImageRequests := 0\<rparr>" and q = 0
      and qs = "[]"]
  note C = queued_handle_cancel [where cfg = cfg and s = s3 and q = 0 and a = 1]
  have 1: "fst (getImage cfg (image_url 3) 3 s2) = QueuedHandle 1"
    using A a by (simp add: s2)
  have 2: "returned (call_cancel cfg (QueuedHandle 0) s2)
     \<and> cancelled (queued_objects (state_after (call_cancel cfg (QueuedHandle 0) s2)) ! 0)"
    using A a by (simp add: Let_def)
  have 3: "cancel (queued_objects (drain cfg (s2\<lparr>numImageRequests := 0\<rparr>)) ! 0) = CancelActivation 1"
    using B b by (simp add: s2)
  have 4: "call_cancel cfg (QueuedHandle 0) s3 = call_cancel cfg (ActiveHandle 1) s3"
    using C s3 by simp
  show ?thesis
    unfolding Let_def cfg_def [symmetric] s2_def [symmetric] s3_def [symmetric]
    using a b 1 2 3 4 s3 by simp
qed

subsection \<open>C5: which responses are errors\<close>




subsection \<open>C6: the choice of the transport\<close>

text \<open>
  C6. \<open>makeRequest\<close> uses XHR when the url starts with \<open>file:\<close>; otherwise fetch
  when \<open>window.fetch\<close>, \<open>window.Request\<close> and \<open>window.AbortController\<close> are there;
  otherwise, in a worker with an actor, it sends \<open>getResource\<close> to the actor; otherwise
  XHR.
\<close>

theorem makeRequest_transport_order:
  "makeRequest env rp =
     (if file_scheme (url rp) then XHR
      else if window_fetch env \<and> window_Request env \<and> window_AbortController env then Fetch
      else if isWorker env \<and> self_worker env \<and> self_worker_actor env then ActorSend ''getResource''
      else XHR)"
  by (simp add: makeRequest_def)

theorem makeRequest_transport_order_witness:
  "makeRequest \<lparr> window_fetch = True, window_Request = True, window_AbortController = True,
                 isWorker = True, self_worker = True, self_worker_actor = True \<rparr>
     ((image_url 1)\<lparr>url := ''file:///tiles/1.png''\<rparr>) = XHR
   \<and> makeRequest \<lparr> window_fetch = True, window_Request = True, window_AbortController = True,
                 isWorker = True, self_worker = True, self_worker_actor = True \<rparr> (image_url 1) = Fetch
   \<and> makeRequest \<lparr> window_fetch = True, window_Request = True, window_AbortController = False,
                 isWorker = True, self_worker = True, self_worker_actor = True \<rparr> (image_url 1)
       = ActorSend ''getResource''
   \<and> makeRequest \<lparr> window_fetch = False, window_Request = False, window_AbortController = False,
                 isWorker = False, self_worker = False, self_worker_actor = False \<rparr> (image_url 1) = XHR"
  using makeRequest_transport_order [of "\<lparr> window_fetch = True, window_Request = True, window_AbortController = True,
                 isWorker = True, self_worker = True, self_worker_actor = True \<rparr>" "(image_url 1)\<lparr>url := ''file:///tiles/1.png''\<rparr>"]
    makeRequest_transport_order [of "\<lparr> window_fetch = True, window_Request = True, window_AbortController = True,
                 isWorker = True, self_worker = True, self_worker_actor = True \<rparr>" "image_url 1"]
    makeRequest_transport_order [of "\<lparr> window_fetch = True, window_Request = True, window_AbortController = False,
                 isWorker = True, self_worker = True, self_worker_actor = True \<rparr>" "image_url 1"]
    makeRequest_transport_order [of "\<lparr> window_fetch = False, window_Request = False, window_AbortController = False,
                 isWorker = False, self_worker = False, self_worker_actor = False \<rparr>" "image_url 1"]
  by (simp add: file_scheme_def image_url_def)

subsection \<open>C7: cancelling a fetch\<close>

text \<open>
  C7 says that after \<open>cancel\<close> the callback is never called. \<open>makeFetchRequest\<close>
  does so when the fetch is aborted before the response arrives: the handler of the
  rejection drops an error whose code is 20. When the response has arrived and its body
  is being read, the abort rejects the read with the same \<open>AbortError\<close>, and the
  handler of that rejection calls the callback with an \<open>Error\<close>.
\<close>

theorem fetch_abort_while_reading_body:
  "snd (fetch_run isMapboxHTTPURL (image_url 1)
         [ResponseArrives \<lparr> resp_ok = True, resp_status = 200, resp_statusText = ''OK'',
                            resp_cacheControl = None, resp_expires = None \<rparr>,
          CancelFetch,
          BodyRejects abort_error] makeFetchRequest)
     = [CallError (PlainError ''The user aborted a request.'') :: (byte list option) response_call]
   \<and> snd (fetch_run isMapboxHTTPURL (image_url 1)
         [CancelFetch, FetchRejects abort_error] makeFetchRequest)
     = ([] :: (byte list option) response_call list)"
  by (simp add: makeFetchRequest_def abort_error_def fetch_catch_def is_body_method_def
      response_reader_def image_url_def)

subsection \<open>C8: the empty payload\<close>

text \<open>
  C8 says that the callback of every request whose transport responds with no error
  and an empty \<open>ArrayBuffer\<close> gets the image with \<open>transparentPngUrl\<close>. For a
  request that is counted in \<open>numImageRequests\<close> it does, when the browser can decode
  that url (lemma \<open>empty_payload_placeholder_when_counted\<close>). After
  \<open>resetImageRequestQueue\<close> with a request in flight it does not: \<open>R\<^sub>1\<close> is
  dispatched, the queue is reset, \<open>R\<^sub>2\<close> is dispatched, \<open>R\<^sub>1\<close> completes. Now the
  counter is 0. When the transport of \<open>R\<^sub>2\<close> responds with empty data, the counter
  becomes \<open>-1\<close> and the assertion throws before the image element is made: no image
  settles and the callback of \<open>R\<^sub>2\<close> is not called. When the transport then calls
  again with an \<open>Error\<close> of message \<open>m\<close> (as \<open>makeFetchRequest\<close> does after a
  throw), the callback of \<open>R\<^sub>2\<close> gets that error.
\<close>

theorem empty_payload_after_reset_fails_assertion:
  "(let evs = [CallGetImage (image_url 1) 1, CallReset, CallGetImage (image_url 2) 2,
               TransportResponds 0 four_bytes, ImageSettles 0];
        s5 = state_after (run config decodes_nonempty evs initial_state);
        o6 = step config decodes_nonempty (TransportResponds 1 (CallData (Some []) None None)) s5;
        s6 = state_after o6;
        s7 = state_after (step config decodes_nonempty (ImageSettles 1) s6);
        s8 = state_after (run config decodes_nonempty
               [TransportResponds 1 (CallError (PlainError m)), ImageSettles 1] s6)
    in returned (run config decodes_nonempty evs initial_state)
     \<and> numImageRequests s5 = 0
     \<and> act_requestParameters (activations s5 ! 1) = image_url 2
     \<and> \<not> advanced (activations s5 ! 1)
     \<and> act_transport (activations s5 ! 1) = InFlight
     \<and> decodes_nonempty transparentPngUrl
     \<and> \<not> returned o6
     \<and> numImageRequests s6 = - 1
     \<and> act_image (activations s6 ! 1) = NoImage
     \<and> invoked s6 = invoked s5
     \<and> invoked s7 = invoked s5
     \<and> map fst (invoked s5) = [1]
     \<and> invoked s8 = invoked s5 @ [(2, ImageError (PlainError m))])"
  by (simp add: config_def initial_state_def step_def getImage_def resetImageRequestQueue_def
      arrayBufferCallback_def advanceImageRequestQueue_def transport_responded_def
      new_activation_def four_bytes_def decodes_nonempty_def img_onload_def drain_stop Let_def)

subsection \<open>C9: the message of an AJAXError\<close>

text \<open>
  C9. The message of an \<open>AJAXError\<close> is the given message followed by the fixed hint
  about the access token if and only if the status is 401 and the url is a Mapbox API
  url; in every other case (the same status on another host, another status on a Mapbox
  host) it is the given message unchanged. The status and url are stored as given.
\<close>

theorem AJAXError_message_augmented_iff:
  "err_message (new_AJAXError isMapboxHTTPURL message status u) =
     (if status = 401 \<and> isMapboxHTTPURL u then message @ token_hint else message)
   \<and> (err_message (new_AJAXError isMapboxHTTPURL message status u) = message @ token_hint
        \<longleftrightarrow> status = 401 \<and> isMapboxHTTPURL u)
   \<and> (err_message (new_AJAXError isMapboxHTTPURL message status u) = message
        \<longleftrightarrow> \<not> (status = 401 \<and> isMapboxHTTPURL u))
   \<and> err_status (new_AJAXError isMapboxHTTPURL message status u) = status
   \<and> err_url (new_AJAXError isMapboxHTTPURL message status u) = u"
  using token_hint_nonempty by (simp add: new_AJAXError_def Let_def)

theorem AJAXError_message_augmented_iff_witness:
  "err_message (new_AJAXError (\<lambda>u. take 22 u = ''https://api.mapbox.com'') ''Unauthorized'' 401
      ''https://api.mapbox.com/v4/a.json'') = ''Unauthorized'' @ token_hint
   \<and> err_message (new_AJAXError (\<lambda>u. take 22 u = ''https://api.mapbox.com'') ''Unauthorized'' 401
      ''https://example.org/a.json'') = ''Unauthorized''
   \<and> err_message (new_AJAXError (\<lambda>u. take 22 u = ''https://api.mapbox.com'') ''Not Found'' 404
      ''https://api.mapbox.com/v4/a.json'') = ''Not Found''"
  using AJAXError_message_augmented_iff [of "\<lambda>u. take 22 u = ''https://api.mapbox.com''"
      "''Unauthorized''" 401 "''https://api.mapbox.com/v4/a.json''"]
    AJAXError_message_augmented_iff [of "\<lambda>u. take 22 u = ''https://api.mapbox.com''"
      "''Unauthorized''" 401 "''https://example.org/a.json''"]
    AJAXError_message_augmented_iff [of "\<lambda>u. take 22 u = ''https://api.mapbox.com''"
      "''Not Found''" 404 "''https://api.mapbox.com/v4/a.json''"]
  by simp

subsection \<open>C10: the assertion in advanceImageRequestQueue\<close>

text \<open>
  C10 says that \<open>assert(numImageRequests >= 0)\<close> never fails. It fails when
  \<open>resetImageRequestQueue\<close> is called while a request is dispatched: the reset sets
  the counter to 0, and when the transport of the request responds, or the request is
  cancelled, the counter becomes \<open>-1\<close> and the assertion throws, before the loop and before
  the handler calls the callback of the request. (Lemma \<open>assertion_holds_without_reset\<close>: without a reset the
  assertion holds after every sequence of events.)
\<close>

theorem reset_in_flight_fails_assertion:
  "\<not> returned (run config decodes_all
        [CallGetImage (image_url 1) 1, CallReset, TransportResponds 0 four_bytes] initial_state)
   \<and> numImageRequests (state_after (run config decodes_all
        [CallGetImage (image_url 1) 1, CallReset, TransportResponds 0 four_bytes] initial_state)) = - 1
   \<and> invoked (state_after (run config decodes_all
        [CallGetImage (image_url 1) 1, CallReset, TransportResponds 0 four_bytes] initial_state)) = []
   \<and> run config decodes_all
        [CallGetImage (image_url 1) 1, CallReset, CallCancel (ActiveHandle 0)] initial_state
      = Throws AssertionError
          \<lparr> imageQueue = [], numImageRequests = - 1, queued_objects = [],
            activations = [(new_activation (image_url 1) 1)\<lparr>advanced := True, act_transport := Aborted\<rparr>],
            invoked = [], revoked = [] \<rparr>"
  by (simp add: config_def initial_state_def step_def getImage_def resetImageRequestQueue_def
      arrayBufferCallback_def advanceImageRequestQueue_def call_cancel_def cancel_activation_def
      abort_transport_def transport_responded_def new_activation_def Let_def)

end
